theory Spec2Isabelle
  imports Complex_Main "HOL-Library.Char_ord"
begin

section \<open>Gophermart: order ledger, accrual client and order processing\<close>

text \<open>
  A shallow embedding of the Go packages \<^verbatim>\<open>utils\<close>, \<^verbatim>\<open>models\<close>, \<^verbatim>\<open>repository\<close>,
  \<^verbatim>\<open>service\<close> and \<^verbatim>\<open>handlers\<close>.

  Conventions of the embedding:
  \<^item> A Go \<^verbatim>\<open>string\<close> is a list of bytes (\<^typ>\<open>string\<close>). The only place where the code
    looks at runes is the digit test of \<^verbatim>\<open>ValidateLuhn\<close>; every byte of a multi-byte
    rune is above \<^verbatim>\<open>'9'\<close>, so the test on bytes rejects exactly the same strings.
  \<^item> A Go \<^verbatim>\<open>float64\<close> is the rational number it denotes. Reading a \<^verbatim>\<open>NUMERIC\<close> value
    into a \<^verbatim>\<open>float64\<close> and subtracting two \<^verbatim>\<open>float64\<close> round to the nearest
    \<^verbatim>\<open>float64\<close>, ties to even (the function \<open>float64\<close> below); comparisons are exact.
    The exponent range of the format is not modelled: what the code rounds are sums of
    column values and their differences, far inside the range.
  \<^item> The columns \<^verbatim>\<open>accrual\<close> and \<^verbatim>\<open>sum\<close> are \<^verbatim>\<open>NUMERIC(10, 2)\<close> and hold exact decimals.
    An \<^verbatim>\<open>INSERT\<close> of a withdrawal rounds the decimal it receives to two places or
    refuses it (\<open>numeric_10_2\<close> below). The decimal that the driver writes for the
    \<^verbatim>\<open>float64\<close> amount is an input of the model, as the answers of the accrual service
    are. The accrual of a decoded verdict stands for the value the column holds once it
    is written; an \<^verbatim>\<open>UPDATE\<close> that the database refuses is the failure of that call.
  \<^item> The PostgreSQL tables are lists of rows in insertion order. The surrogate \<^verbatim>\<open>id\<close>
    columns and the \<^verbatim>\<open>users\<close> table are left out: no operation below reads them, and the
    authentication middleware only lets requests of existing users through.
  \<^item> A statement sent to the database is one atomic step on the tables. The clock
    (\<^verbatim>\<open>CURRENT_TIMESTAMP\<close>, \<^verbatim>\<open>time.Now()\<close>) is an argument \<open>now\<close>, in seconds.
  \<^item> A Go \<^verbatim>\<open>error\<close> result is a value of a datatype; \<^verbatim>\<open>nil\<close> is \<open>None\<close>.
  \<^item> Statements and calls are modelled as they behave when the database and the
    context are available. For a started goroutine the other case is an event of its
    own (the call fails and the goroutine returns); a handler whose statement fails for
    another reason than the column's refusal of an amount answers 500 and changes
    nothing, which is not part of the model.
\<close>

subsection \<open>Package strconv (Go standard library): ParseInt(s, 10, 64) and Atoi\<close>

datatype NumError = ErrSyntax | ErrRange

definition maxUint64 :: nat where
  "maxUint64 = 18446744073709551615"

text \<open>
  The digit loop of \<^verbatim>\<open>strconv.ParseUint\<close> for base 10 and bit size 64. The accumulator
  is a \<^verbatim>\<open>uint64\<close>: the multiplication and the addition wrap around, and the loop
  detects the overflow as the library does (\<^verbatim>\<open>n >= cutoff\<close>, then \<^verbatim>\<open>n1 < n || n1 > maxVal\<close>).
\<close>

fun ParseUint_loop :: "nat \<Rightarrow> string \<Rightarrow> NumError + nat" where
  "ParseUint_loop n [] = Inr n"
| "ParseUint_loop n (c # cs) =
     (if CHR ''0'' \<le> c \<and> c \<le> CHR ''9'' then
        (let d = of_char c - of_char CHR ''0'' in
         if n \<ge> maxUint64 div 10 + 1 then Inl ErrRange
         else
           (let n10 = (n * 10) mod 2 ^ 64;
                n1 = (n10 + d) mod 2 ^ 64
            in if n1 < n10 \<or> n1 > maxUint64 then Inl ErrRange
               else ParseUint_loop n1 cs))
      else Inl ErrSyntax)"

definition ParseUint :: "string \<Rightarrow> NumError + nat" where
  "ParseUint s = (if s = [] then Inl ErrSyntax else ParseUint_loop 0 s)"

text \<open>
  \<^verbatim>\<open>strconv.ParseInt(s, 10, 64)\<close>: an optional sign, then \<^verbatim>\<open>ParseUint\<close>; a range error
  of \<^verbatim>\<open>ParseUint\<close> comes back with the value \<^verbatim>\<open>maxUint64\<close> and is caught by the
  comparison with the cutoff \<open>2 ^ 63\<close>.
\<close>

definition ParseInt :: "string \<Rightarrow> NumError + int" where
  "ParseInt s =
     (case s of
        [] \<Rightarrow> Inl ErrSyntax
      | c # cs \<Rightarrow>
          (let neg = (c = CHR ''-'');
               s' = (if c = CHR ''+'' \<or> c = CHR ''-'' then cs else s)
           in case ParseUint s' of
                Inl ErrSyntax \<Rightarrow> Inl ErrSyntax
              | r \<Rightarrow>
                  (let un = (case r of Inr n \<Rightarrow> n | Inl _ \<Rightarrow> maxUint64);
                       cutoff = 2 ^ 63
                   in if \<not> neg \<and> un \<ge> cutoff then Inl ErrRange
                      else if neg \<and> un > cutoff then Inl ErrRange
                      else Inr (if neg then - int un else int un))))"

text \<open>
  \<^verbatim>\<open>strconv.Atoi\<close> on a 64-bit platform: its fast path for short strings computes
  what \<^verbatim>\<open>ParseInt(s, 10, 0)\<close> computes.
\<close>

definition Atoi :: "string \<Rightarrow> NumError + int" where
  "Atoi s = ParseInt s"

subsection \<open>Package utils: luhn.go\<close>

text \<open>The first loop of \<^verbatim>\<open>ValidateLuhn\<close>: \<open>None\<close> is the early \<^verbatim>\<open>return false\<close>.\<close>

fun collect_digits :: "int list \<Rightarrow> string \<Rightarrow> int list option" where
  "collect_digits digits [] = Some digits"
| "collect_digits digits (r # rs) =
     (if r < CHR ''0'' \<or> r > CHR ''9'' then None
      else collect_digits (digits @ [of_char r - of_char CHR ''0'']) rs)"

text \<open>The second loop: \<open>i\<close> is the index, \<open>acc\<close> the variable \<^verbatim>\<open>sum\<close>.\<close>

fun luhn_sum :: "nat \<Rightarrow> nat \<Rightarrow> int \<Rightarrow> int list \<Rightarrow> int" where
  "luhn_sum parity i acc [] = acc"
| "luhn_sum parity i acc (digit # rest) =
     (let digit' = (if i mod 2 = parity
                    then (let d2 = digit * 2 in if d2 > 9 then d2 - 9 else d2)
                    else digit)
      in luhn_sum parity (i + 1) (acc + digit') rest)"

definition ValidateLuhn :: "string \<Rightarrow> bool" where
  "ValidateLuhn number =
     (case collect_digits [] number of
        None \<Rightarrow> False
      | Some digits \<Rightarrow> luhn_sum (length digits mod 2) 0 0 digits mod 10 = 0)"

definition IsNumeric :: "string \<Rightarrow> bool" where
  "IsNumeric s = (case ParseInt s of Inl err \<Rightarrow> False | Inr v \<Rightarrow> True)"

text \<open>Vocabulary for the statements: decimal digits and the number a digit string denotes.\<close>

definition is_digit :: "char \<Rightarrow> bool" where
  "is_digit c = (CHR ''0'' \<le> c \<and> c \<le> CHR ''9'')"

fun decimal_value :: "nat \<Rightarrow> string \<Rightarrow> nat" where
  "decimal_value n [] = n"
| "decimal_value n (c # cs) = decimal_value (n * 10 + (of_char c - of_char CHR ''0'')) cs"

definition maxInt64 :: nat where
  "maxInt64 = 9223372036854775807"

subsection \<open>The type float64: rounding to the nearest, ties to even\<close>

text \<open>
  \<open>bits n\<close> is the length of \<open>n\<close> in binary, and \<open>ilog2 a\<close> the integer \<open>k\<close> with
  \<open>2 ^ k \<le> a < 2 ^ (k + 1)\<close> for a positive \<open>a\<close>. A \<^verbatim>\<open>float64\<close> has 53 significant
  bits: \<open>float64 x\<close> scales \<open>x\<close> to a significand between \<open>2 ^ 52\<close> and \<open>2 ^ 53\<close>,
  rounds it to the nearest integer (to the even one of two equally near) and scales
  back.
\<close>

fun bits :: "nat \<Rightarrow> nat" where
  "bits n = (if n = 0 then 0 else Suc (bits (n div 2)))"

declare bits.simps [simp del]

definition ilog2 :: "rat \<Rightarrow> int" where
  "ilog2 a = (if 1 \<le> a then int (bits (nat \<lfloor>a\<rfloor>)) - 1
              else - int (bits (nat (\<lceil>1 / a\<rceil> - 1))))"

definition pow2 :: "int \<Rightarrow> rat" where
  "pow2 e = (if 0 \<le> e then 2 ^ nat e else 1 / 2 ^ nat (- e))"

definition round_half_even :: "rat \<Rightarrow> int" where
  "round_half_even r =
     (let f = \<lfloor>r\<rfloor>; d = r - of_int f
      in if d < 1 / 2 then f
         else if 1 / 2 < d then f + 1
         else if even f then f else f + 1)"

definition float64 :: "rat \<Rightarrow> rat" where
  "float64 x =
     (if x = 0 then 0
      else (let e = ilog2 \<bar>x\<bar> - 52;
                m = round_half_even (\<bar>x\<bar> / pow2 e)
            in sgn x * of_int m * pow2 e))"

subsection \<open>Package models\<close>

definition StatusNew :: string where "StatusNew = ''NEW''"
definition StatusProcessing :: string where "StatusProcessing = ''PROCESSING''"
definition StatusInvalid :: string where "StatusInvalid = ''INVALID''"
definition StatusProcessed :: string where "StatusProcessed = ''PROCESSED''"
definition StatusRegistered :: string where "StatusRegistered = ''REGISTERED''"

record Order =
  Number :: string
  UserID :: int
  Status :: string
  Accrual :: rat
  UploadedAt :: nat

record Withdrawal =
  W_UserID :: int
  W_Order :: string
  W_Sum :: rat
  ProcessedAt :: nat

record Balance =
  Current :: rat
  Withdrawn :: rat

record AccrualResponse =
  A_Order :: string
  A_Status :: string
  A_Accrual :: rat

subsection \<open>Package repository: the tables and the statements of PostgresRepository\<close>

record db =
  orders :: "Order list"
  withdrawals :: "Withdrawal list"

datatype repo_error = ErrInsufficientFunds | ErrUniqueViolation | ErrNumericOverflow

definition GetOrderByNumber :: "db \<Rightarrow> string \<Rightarrow> Order option" where
  "GetOrderByNumber d orderNumber = find (\<lambda>ord. Number ord = orderNumber) (orders d)"

text \<open>\<^verbatim>\<open>INSERT INTO orders\<close>: the column \<^verbatim>\<open>number\<close> is \<^verbatim>\<open>UNIQUE\<close>, \<^verbatim>\<open>accrual\<close> defaults to 0.\<close>

definition CreateOrder :: "db \<Rightarrow> int \<Rightarrow> string \<Rightarrow> nat \<Rightarrow> repo_error option \<times> db" where
  "CreateOrder d userID orderNumber now =
     (if orderNumber \<in> set (map Number (orders d)) then (Some ErrUniqueViolation, d)
      else (None,
            d\<lparr>orders := orders d @
                 [\<lparr>Number = orderNumber, UserID = userID, Status = StatusNew,
                   Accrual = 0, UploadedAt = now\<rparr>]\<rparr>))"

text \<open>\<^verbatim>\<open>UPDATE orders SET status = $1, accrual = $2 WHERE number = $3\<close>.\<close>

definition UpdateOrderStatus :: "db \<Rightarrow> string \<Rightarrow> string \<Rightarrow> rat \<Rightarrow> db" where
  "UpdateOrderStatus d orderNumber status accrual =
     d\<lparr>orders :=
         map (\<lambda>ord. if Number ord = orderNumber
                     then ord\<lparr>Status := status, Accrual := accrual\<rparr> else ord)
             (orders d)\<rparr>"

text \<open>The aggregate \<^verbatim>\<open>SUM\<close> is \<^verbatim>\<open>NULL\<close> over no rows; \<^verbatim>\<open>COALESCE(x, 0)\<close> replaces it.\<close>

fun sql_sum :: "rat list \<Rightarrow> rat option" where
  "sql_sum [] = None"
| "sql_sum (x # xs) = Some (case sql_sum xs of None \<Rightarrow> x | Some s \<Rightarrow> x + s)"

definition COALESCE :: "rat option \<Rightarrow> rat \<Rightarrow> rat" where
  "COALESCE v dflt = (case v of None \<Rightarrow> dflt | Some x \<Rightarrow> x)"

text \<open>
  PostgreSQL's assignment of a decimal to a column \<^verbatim>\<open>NUMERIC(10, 2)\<close>: the decimal is
  rounded to two places, halves away from zero, and refused (numeric field overflow) when
  the result needs more than eight digits before the point.
\<close>

definition numeric_10_2 :: "rat \<Rightarrow> rat option" where
  "numeric_10_2 x =
     (let n = (if 0 \<le> x then \<lfloor>x * 100 + 1 / 2\<rfloor> else - \<lfloor>- x * 100 + 1 / 2\<rfloor>)
      in if 10 ^ 10 \<le> \<bar>n\<bar> then None else Some (of_int n / 100))"

text \<open>
  \<^verbatim>\<open>GetUserBalance\<close> scans each aggregate into a \<^verbatim>\<open>float64\<close> field and then executes
  \<^verbatim>\<open>balance.Current -= balance.Withdrawn\<close> on the two \<^verbatim>\<open>float64\<close> values.
\<close>

definition GetUserBalance :: "db \<Rightarrow> int \<Rightarrow> Balance" where
  "GetUserBalance d userID =
     (let current = float64 (COALESCE (sql_sum (map Accrual
                       (filter (\<lambda>ord. UserID ord = userID \<and> Status ord = StatusProcessed)
                          (orders d)))) 0);
          withdrawn = float64 (COALESCE (sql_sum (map W_Sum
                       (filter (\<lambda>w. W_UserID w = userID) (withdrawals d)))) 0)
      in \<lparr>Current = float64 (current - withdrawn), Withdrawn = withdrawn\<rparr>)"

text \<open>
  \<^verbatim>\<open>WithdrawBalance\<close> compares two \<^verbatim>\<open>float64\<close> values and sends the amount with the
  \<^verbatim>\<open>INSERT\<close>. \<open>sent\<close> is the decimal that the driver writes for the \<^verbatim>\<open>float64\<close>
  amount; the column \<^verbatim>\<open>sum NUMERIC(10, 2)\<close> rounds it, or refuses it, and then
  \<^verbatim>\<open>ExecContext\<close> returns the database's error.
\<close>

definition WithdrawBalance ::
  "db \<Rightarrow> int \<Rightarrow> string \<Rightarrow> rat \<Rightarrow> rat \<Rightarrow> nat \<Rightarrow> repo_error option \<times> db" where
  "WithdrawBalance d userID orderNumber amount sent now =
     (let balance = GetUserBalance d userID
      in if Current balance < amount then (Some ErrInsufficientFunds, d)
         else (case numeric_10_2 sent of
                 None \<Rightarrow> (Some ErrNumericOverflow, d)
               | Some v \<Rightarrow>
                   (None,
                    d\<lparr>withdrawals := withdrawals d @
                         [\<lparr>W_UserID = userID, W_Order = orderNumber, W_Sum = v,
                           ProcessedAt = now\<rparr>]\<rparr>)))"

text \<open>
  The two statements of \<^verbatim>\<open>WithdrawBalance\<close> are sent one after the other, outside any
  transaction. A request in flight is in one of three places: before the balance query,
  between the query and the insert (holding the balance it read), or finished.
\<close>

record withdraw_request =
  R_UserID :: int
  R_Order :: string
  R_Amount :: rat
  R_Sent :: rat
  R_Now :: nat

datatype withdraw_pc = W_Start | W_Checked Balance | W_Done "repo_error option"

fun withdraw_step :: "withdraw_request \<Rightarrow> withdraw_pc \<Rightarrow> db \<Rightarrow> withdraw_pc \<times> db" where
  "withdraw_step r W_Start d = (W_Checked (GetUserBalance d (R_UserID r)), d)"
| "withdraw_step r (W_Checked balance) d =
     (if Current balance < R_Amount r then (W_Done (Some ErrInsufficientFunds), d)
      else (case numeric_10_2 (R_Sent r) of
              None \<Rightarrow> (W_Done (Some ErrNumericOverflow), d)
            | Some v \<Rightarrow>
                (W_Done None,
                 d\<lparr>withdrawals := withdrawals d @
                      [\<lparr>W_UserID = R_UserID r, W_Order = R_Order r, W_Sum = v,
                        ProcessedAt = R_Now r\<rparr>]\<rparr>)))"
| "withdraw_step r (W_Done res) d = (W_Done res, d)"

text \<open>
  Two requests served by two goroutines: the schedule says whose statement the database
  executes next (\<open>False\<close>: the first request, \<open>True\<close>: the second).
\<close>

fun interleave ::
  "bool list \<Rightarrow> withdraw_request \<Rightarrow> withdraw_request \<Rightarrow>
   withdraw_pc \<times> withdraw_pc \<times> db \<Rightarrow> withdraw_pc \<times> withdraw_pc \<times> db" where
  "interleave [] r1 r2 st = st"
| "interleave (False # sched) r1 r2 (p1, p2, d) =
     (case withdraw_step r1 p1 d of (p1', d') \<Rightarrow> interleave sched r1 r2 (p1', p2, d'))"
| "interleave (True # sched) r1 r2 (p1, p2, d) =
     (case withdraw_step r2 p2 d of (p2', d') \<Rightarrow> interleave sched r1 r2 (p1, p2', d'))"

subsection \<open>Package service: the accrual client\<close>

text \<open>
  What the outside world answers to one \<^verbatim>\<open>GET /api/orders/{number}\<close>: building the
  request fails, the round trip fails, or a response arrives. Of a response the code
  reads the status code, the \<^verbatim>\<open>Retry-After\<close> header (\<^verbatim>\<open>Header.Get\<close> gives the empty
  string for an absent header) and the body, which \<^verbatim>\<open>io.ReadAll\<close> and
  \<^verbatim>\<open>json.Unmarshal\<close> turn into an \<^verbatim>\<open>AccrualResponse\<close> or into an error.
\<close>

datatype body = ReadFailed | Malformed | Decoded AccrualResponse

record http_response =
  StatusCode :: nat
  RetryAfter :: string
  Body :: body

datatype http_outcome = NewRequestFailed | DoFailed | Responded http_response

datatype accrual_error =
    ErrNewRequest
  | ErrDo
  | ErrRateLimitedAfter int
  | ErrRateLimited
  | ErrStatus nat
  | ErrReadBody
  | ErrUnmarshal

type_synonym accrual_result = "accrual_error + AccrualResponse option"

definition GetOrderAccrual :: "http_outcome \<Rightarrow> accrual_result" where
  "GetOrderAccrual outcome =
     (case outcome of
        NewRequestFailed \<Rightarrow> Inl ErrNewRequest
      | DoFailed \<Rightarrow> Inl ErrDo
      | Responded resp \<Rightarrow>
          if StatusCode resp = 429 then
            (if RetryAfter resp \<noteq> [] then
               (case Atoi (RetryAfter resp) of
                  Inr seconds \<Rightarrow> Inl (ErrRateLimitedAfter seconds)
                | Inl err \<Rightarrow> Inl ErrRateLimited)
             else Inl ErrRateLimited)
          else if StatusCode resp = 204 then Inr None
          else if StatusCode resp \<noteq> 200 then Inl (ErrStatus (StatusCode resp))
          else (case Body resp of
                  ReadFailed \<Rightarrow> Inl ErrReadBody
                | Malformed \<Rightarrow> Inl ErrUnmarshal
                | Decoded accrualResp \<Rightarrow> Inr (Some accrualResp)))"

text \<open>
  The log of outbound calls: when, for which order, and what \<^verbatim>\<open>GetOrderAccrual\<close>
  returned. A call whose request could not be built never leaves the process.
\<close>

type_synonym poll = "nat \<times> string \<times> accrual_result"

definition record_poll :: "nat \<Rightarrow> string \<Rightarrow> http_outcome \<Rightarrow> poll list \<Rightarrow> poll list" where
  "record_poll now orderNumber outcome plog =
     (if outcome = NewRequestFailed then plog
      else plog @ [(now, orderNumber, GetOrderAccrual outcome)])"

subsection \<open>Package service: worker.go\<close>

definition interval :: nat where
  "interval = 5"

definition OrderProcessor_processOrder ::
  "nat \<Rightarrow> http_outcome \<Rightarrow> Order \<Rightarrow> db \<times> poll list \<Rightarrow> db \<times> poll list" where
  "OrderProcessor_processOrder now outcome ord st =
     (case st of (d, plog) \<Rightarrow>
        if Status ord = StatusProcessed \<or> Status ord = StatusInvalid then (d, plog)
        else
          (let d1 = (if Status ord = StatusNew
                     then UpdateOrderStatus d (Number ord) StatusProcessing 0 else d);
               plog1 = record_poll now (Number ord) outcome plog
           in case GetOrderAccrual outcome of
                Inl err \<Rightarrow> (d1, plog1)
              | Inr None \<Rightarrow> (d1, plog1)
              | Inr (Some accrualResp) \<Rightarrow>
                  if A_Status accrualResp \<noteq> StatusProcessed \<and>
                     A_Status accrualResp \<noteq> StatusInvalid
                  then (d1, plog1)
                  else (UpdateOrderStatus d1 (Number ord) (A_Status accrualResp)
                          (A_Accrual accrualResp), plog1)))"

subsection \<open>Package handlers, and the running system\<close>

text \<open>
  \<^verbatim>\<open>UploadOrder\<close> ends with \<^verbatim>\<open>go h.processOrder(orderNumber)\<close>. A started goroutine is
  at one of the three calls of \<^verbatim>\<open>Handler.processOrder\<close>: the update to PROCESSING, the
  accrual request, or the final update with the response it holds.
\<close>

datatype proc =
    SetProcessing string
  | GetAccrual string
  | WriteFinal string AccrualResponse

fun proc_number :: "proc \<Rightarrow> string" where
  "proc_number (SetProcessing n) = n"
| "proc_number (GetAccrual n) = n"
| "proc_number (WriteFinal n a) = n"

record sys =
  ledger :: db
  procs :: "proc list"
  polls :: "poll list"

definition init_sys :: sys where
  "init_sys = \<lparr>ledger = \<lparr>orders = [], withdrawals = []\<rparr>, procs = [], polls = []\<rparr>"

text \<open>
  \<^verbatim>\<open>Handler.processOrder\<close> from its first statement to its return, when every call
  succeeds and nothing else runs in between.
\<close>

definition Handler_processOrder ::
  "nat \<Rightarrow> http_outcome \<Rightarrow> string \<Rightarrow> db \<times> poll list \<Rightarrow> db \<times> poll list" where
  "Handler_processOrder now outcome orderNumber st =
     (case st of (d, plog) \<Rightarrow>
        (let d1 = UpdateOrderStatus d orderNumber StatusProcessing 0;
             plog1 = record_poll now orderNumber outcome plog
         in case GetOrderAccrual outcome of
              Inl err \<Rightarrow> (d1, plog1)
            | Inr None \<Rightarrow> (d1, plog1)
            | Inr (Some accrualResp) \<Rightarrow>
                if A_Status accrualResp = StatusProcessed \<or>
                   A_Status accrualResp = StatusInvalid
                then (UpdateOrderStatus d1 orderNumber (A_Status accrualResp)
                        (A_Accrual accrualResp), plog1)
                else (d1, plog1)))"

text \<open>
  One call of a goroutine of \<^verbatim>\<open>Handler.processOrder\<close>; \<open>None\<close> means it has returned.
\<close>

fun proc_step ::
  "nat \<Rightarrow> http_outcome \<Rightarrow> proc \<Rightarrow> db \<times> poll list \<Rightarrow> proc option \<times> db \<times> poll list" where
  "proc_step now outcome (SetProcessing n) (d, plog) =
     (Some (GetAccrual n), UpdateOrderStatus d n StatusProcessing 0, plog)"
| "proc_step now outcome (GetAccrual n) (d, plog) =
     (let plog1 = record_poll now n outcome plog
      in case GetOrderAccrual outcome of
           Inl err \<Rightarrow> (None, d, plog1)
         | Inr None \<Rightarrow> (None, d, plog1)
         | Inr (Some accrualResp) \<Rightarrow>
             if A_Status accrualResp = StatusProcessed \<or>
                A_Status accrualResp = StatusInvalid
             then (Some (WriteFinal n accrualResp), d, plog1)
             else (None, d, plog1))"
| "proc_step now outcome (WriteFinal n accrualResp) (d, plog) =
     (None, UpdateOrderStatus d n (A_Status accrualResp) (A_Accrual accrualResp), plog)"

text \<open>
  The handlers return the HTTP status they write. \<open>auth\<close> is the user id that the
  middleware put into the context, \<open>body\<close> the request body (\<open>None\<close>: it could not be
  read or decoded), \<open>sent\<close> the decimal the driver writes for the amount of a
  withdrawal.
\<close>

definition Handler_UploadOrder ::
  "sys \<Rightarrow> int option \<Rightarrow> string option \<Rightarrow> nat \<Rightarrow> nat \<times> sys" where
  "Handler_UploadOrder s auth body now =
     (case auth of
        None \<Rightarrow> (401, s)
      | Some userID \<Rightarrow>
          (case body of
             None \<Rightarrow> (400, s)
           | Some orderNumber \<Rightarrow>
               if orderNumber = [] then (400, s)
               else if \<not> IsNumeric orderNumber \<or> \<not> ValidateLuhn orderNumber then (422, s)
               else
                 (case GetOrderByNumber (ledger s) orderNumber of
                    Some existingOrder \<Rightarrow>
                      if UserID existingOrder = userID then (200, s) else (409, s)
                  | None \<Rightarrow>
                      (case CreateOrder (ledger s) userID orderNumber now of
                         (Some err, d) \<Rightarrow> (500, s\<lparr>ledger := d\<rparr>)
                       | (None, d) \<Rightarrow>
                           (202, s\<lparr>ledger := d,
                                   procs := procs s @ [SetProcessing orderNumber]\<rparr>)))))"

definition Handler_GetBalance :: "sys \<Rightarrow> int option \<Rightarrow> nat \<times> Balance option" where
  "Handler_GetBalance s auth =
     (case auth of
        None \<Rightarrow> (401, None)
      | Some userID \<Rightarrow> (200, Some (GetUserBalance (ledger s) userID)))"

definition Handler_WithdrawBalance ::
  "sys \<Rightarrow> int option \<Rightarrow> (string \<times> rat) option \<Rightarrow> rat \<Rightarrow> nat \<Rightarrow> nat \<times> sys" where
  "Handler_WithdrawBalance s auth body sent now =
     (case auth of
        None \<Rightarrow> (401, s)
      | Some userID \<Rightarrow>
          (case body of
             None \<Rightarrow> (400, s)
           | Some (reqOrder, reqSum) \<Rightarrow>
               if \<not> IsNumeric reqOrder \<or> \<not> ValidateLuhn reqOrder then (422, s)
               else
                 (case WithdrawBalance (ledger s) userID reqOrder reqSum sent now of
                    (Some err, d) \<Rightarrow>
                      if err = ErrInsufficientFunds then (402, s\<lparr>ledger := d\<rparr>)
                      else (500, s\<lparr>ledger := d\<rparr>)
                  | (None, d) \<Rightarrow> (200, s\<lparr>ledger := d\<rparr>))))"

text \<open>\<^verbatim>\<open>processPendingOrders\<close> has an empty body.\<close>

definition processPendingOrders :: "sys \<Rightarrow> sys" where
  "processPendingOrders s = s"

text \<open>
  \<^verbatim>\<open>processLoop\<close>: the \<^verbatim>\<open>select\<close> over the ticker and the stop channel, fed with the
  signals that arrive; when they run out the loop is still waiting.
\<close>

datatype signal = TickerFired | Stopped

fun processLoop :: "signal list \<Rightarrow> sys \<Rightarrow> sys" where
  "processLoop [] s = s"
| "processLoop (TickerFired # rest) s = processLoop rest (processPendingOrders s)"
| "processLoop (Stopped # rest) s = s"

text \<open>
  What can happen to the running system, with the time at which it happens: a request to
  upload or to withdraw, a tick of the processor, the next call of the \<open>k\<close>-th started
  goroutine (with the answer of the accrual service, read only at the accrual request),
  or the failure of that call (the context's deadline, a database error), after which
  the goroutine returns. A handler runs from request to response as one event; what two
  withdrawals do when their statements interleave is the subject of \<open>interleave\<close>
  above. (Two uploads of one number whose statements interleave end with the second
  \<^verbatim>\<open>INSERT\<close> refused by the \<^verbatim>\<open>UNIQUE\<close> column, an answer of 500 and no goroutine.)
\<close>

datatype event =
    Upload nat "int option" "string option"
  | Withdraw nat "int option" "(string \<times> rat) option" rat
  | Tick nat
  | ProcStep nat nat http_outcome
  | ProcFail nat nat

definition remove_nth :: "nat \<Rightarrow> 'a list \<Rightarrow> 'a list" where
  "remove_nth k xs = take k xs @ drop (Suc k) xs"

fun step :: "event \<Rightarrow> sys \<Rightarrow> sys" where
  "step (Upload now auth body) s = snd (Handler_UploadOrder s auth body now)"
| "step (Withdraw now auth body sent) s =
     snd (Handler_WithdrawBalance s auth body sent now)"
| "step (Tick now) s = processPendingOrders s"
| "step (ProcStep now k outcome) s =
     (if k < length (procs s) then
        (case proc_step now outcome (procs s ! k) (ledger s, polls s) of
           (None, d, plog) \<Rightarrow> s\<lparr>ledger := d, procs := remove_nth k (procs s), polls := plog\<rparr>
         | (Some p, d, plog) \<Rightarrow> s\<lparr>ledger := d, procs := (procs s)[k := p], polls := plog\<rparr>)
      else s)"
| "step (ProcFail now k) s =
     (if k < length (procs s) then s\<lparr>procs := remove_nth k (procs s)\<rparr> else s)"

fun run :: "event list \<Rightarrow> sys \<Rightarrow> sys" where
  "run [] s = s"
| "run (e # es) s = run es (step e s)"

subsection \<open>The specification's wording of the fetch, the sweep and the cool-down\<close>

text \<open>
  The four results the specification gives to a fetch. In the code a rate-limit answer
  is an error value that may or may not carry a number of seconds, so \<open>RateLimited\<close>
  holds an optional delay.
\<close>

datatype fetch_result =
    Verdict AccrualResponse
  | NotRegistered
  | RateLimited "int option"
  | TransientError

definition fetch_result_of :: "accrual_result \<Rightarrow> fetch_result" where
  "fetch_result_of r =
     (case r of
        Inr (Some accrualResp) \<Rightarrow> Verdict accrualResp
      | Inr None \<Rightarrow> NotRegistered
      | Inl (ErrRateLimitedAfter seconds) \<Rightarrow> RateLimited (Some seconds)
      | Inl ErrRateLimited \<Rightarrow> RateLimited None
      | Inl err \<Rightarrow> TransientError)"

text \<open>
  The response mapping as the specification states it: 200 with a verdict body, 204,
  429 with the delay of the retry-after header and 60 when the header is absent or does
  not parse, and a transient error for everything else. The specification names no
  result for a 2xx status other than 200 and 204; it is given the transient error here.
\<close>

definition spec_fetchVerdict :: "http_outcome \<Rightarrow> fetch_result" where
  "spec_fetchVerdict outcome =
     (case outcome of
        NewRequestFailed \<Rightarrow> TransientError
      | DoFailed \<Rightarrow> TransientError
      | Responded resp \<Rightarrow>
          if StatusCode resp = 200 then
            (case Body resp of
               Decoded accrualResp \<Rightarrow> Verdict accrualResp
             | ReadFailed \<Rightarrow> TransientError
             | Malformed \<Rightarrow> TransientError)
          else if StatusCode resp = 204 then NotRegistered
          else if StatusCode resp = 429 then
            (if RetryAfter resp = [] then RateLimited (Some 60)
             else (case Atoi (RetryAfter resp) of
                     Inr seconds \<Rightarrow> RateLimited (Some seconds)
                   | Inl err \<Rightarrow> RateLimited (Some 60)))
          else TransientError)"

text \<open>
  The sweep as the specification states it: the orders in state NEW or PROCESSING,
  oldest submission first, each handed to \<^verbatim>\<open>OrderProcessor.processOrder\<close>; \<open>answer\<close>
  is what the accrual service replies for each order number.
\<close>

definition pending_orders :: "db \<Rightarrow> Order list" where
  "pending_orders d =
     sort_key UploadedAt
       (filter (\<lambda>ord. Status ord = StatusNew \<or> Status ord = StatusProcessing) (orders d))"

fun sweep_orders ::
  "nat \<Rightarrow> (string \<Rightarrow> http_outcome) \<Rightarrow> Order list \<Rightarrow> db \<times> poll list \<Rightarrow> db \<times> poll list" where
  "sweep_orders now answer [] st = st"
| "sweep_orders now answer (ord # rest) st =
     sweep_orders now answer rest
       (OrderProcessor_processOrder now (answer (Number ord)) ord st)"

definition spec_sweep :: "nat \<Rightarrow> (string \<Rightarrow> http_outcome) \<Rightarrow> sys \<Rightarrow> sys" where
  "spec_sweep now answer s =
     (case sweep_orders now answer (pending_orders (ledger s)) (ledger s, polls s) of
        (d, plog) \<Rightarrow> s\<lparr>ledger := d, polls := plog\<rparr>)"

text \<open>
  The cool-down as the specification states it, read off the log of outbound calls:
  after a rate-limit answer at time \<open>t\<close> asking for \<open>n\<close> seconds (60 when it names
  none), no later call is made before \<open>t + n\<close>.
\<close>

definition retry_after :: "accrual_result \<Rightarrow> int option" where
  "retry_after r =
     (case fetch_result_of r of
        RateLimited (Some seconds) \<Rightarrow> Some seconds
      | RateLimited None \<Rightarrow> Some 60
      | Verdict accrualResp \<Rightarrow> None
      | NotRegistered \<Rightarrow> None
      | TransientError \<Rightarrow> None)"

fun poll_time :: "poll \<Rightarrow> nat" where
  "poll_time (t, n, r) = t"

fun cooldown_respected :: "poll list \<Rightarrow> bool" where
  "cooldown_respected [] = True"
| "cooldown_respected ((t, n, r) # rest) =
     ((case retry_after r of
         None \<Rightarrow> True
       | Some seconds \<Rightarrow> list_all (\<lambda>p. int t + seconds \<le> int (poll_time p)) rest)
      \<and> cooldown_respected rest)"

text \<open>The totals of the specification's balance formula.\<close>

definition processed_accrual_total :: "db \<Rightarrow> int \<Rightarrow> rat" where
  "processed_accrual_total d userID =
     sum_list (map (\<lambda>ord. if UserID ord = userID \<and> Status ord = StatusProcessed
                          then Accrual ord else 0) (orders d))"

definition withdrawal_total :: "db \<Rightarrow> int \<Rightarrow> rat" where
  "withdrawal_total d userID =
     sum_list (map (\<lambda>w. if W_UserID w = userID then W_Sum w else 0) (withdrawals d))"

text \<open>
  The arithmetic of a withdrawal request is exact on a ledger when the two sums of the
  user, their difference, and both again once the amount is withdrawn, are
  \<^verbatim>\<open>float64\<close> values, and the column holds the amount as it is. Whole numbers below
  \<open>2 ^ 53\<close> are \<^verbatim>\<open>float64\<close> values.
\<close>

definition representable :: "rat \<Rightarrow> bool" where
  "representable x = (float64 x = x)"

definition exact_withdrawal :: "db \<Rightarrow> withdraw_request \<Rightarrow> bool" where
  "exact_withdrawal d r =
     (representable (processed_accrual_total d (R_UserID r)) \<and>
      representable (withdrawal_total d (R_UserID r)) \<and>
      representable (processed_accrual_total d (R_UserID r)
                     - withdrawal_total d (R_UserID r)) \<and>
      representable (withdrawal_total d (R_UserID r) + R_Amount r) \<and>
      representable (processed_accrual_total d (R_UserID r)
                     - (withdrawal_total d (R_UserID r) + R_Amount r)) \<and>
      numeric_10_2 (R_Sent r) = Some (R_Amount r))"

text \<open>
  Where the code and the specification's mapping part: a 429 answer whose
  \<^verbatim>\<open>Retry-After\<close> header is absent or is not an integer.
\<close>

definition rate_limited_without_delay :: "http_outcome \<Rightarrow> bool" where
  "rate_limited_without_delay outcome =
     (case outcome of
        NewRequestFailed \<Rightarrow> False
      | DoFailed \<Rightarrow> False
      | Responded resp \<Rightarrow>
          StatusCode resp = 429 \<and>
          (RetryAfter resp = [] \<or>
           (case Atoi (RetryAfter resp) of Inl err \<Rightarrow> True | Inr seconds \<Rightarrow> False)))"

subsection \<open>Example inputs\<close>

text \<open>
  The scenario of the specification: user 1 submits order 12345678903, the processor
  ticks, the goroutine sets PROCESSING, fetches a PROCESSED verdict of 500 and writes
  it, and the user withdraws 500, for which the driver writes 500. (The answer given
  to a goroutine that is not at its accrual request is not read.)
\<close>

definition processed_500 :: http_outcome where
  "processed_500 =
     Responded \<lparr>StatusCode = 200, RetryAfter = [],
       Body = Decoded \<lparr>A_Order = ''12345678903'', A_Status = ''PROCESSED'',
                        A_Accrual = 500\<rparr>\<rparr>"

definition scenario :: "event list" where
  "scenario =
     [Upload 0 (Some 1) (Some ''12345678903''),
      Tick 5,
      ProcStep 6 0 DoFailed,
      ProcStep 7 0 processed_500,
      ProcStep 8 0 DoFailed,
      Withdraw 9 (Some 1) (Some (''2377225624'', 500)) 500]"

text \<open>A ledger with one PROCESSED order of 100 for user 1, and two requests for 100 each.\<close>

definition one_hundred :: db where
  "one_hundred =
     \<lparr>orders = [\<lparr>Number = ''12345678903'', UserID = 1, Status = ''PROCESSED'',
                  Accrual = 100, UploadedAt = 0\<rparr>],
      withdrawals = []\<rparr>"

definition first_request :: withdraw_request where
  "first_request =
     \<lparr>R_UserID = 1, R_Order = ''79927398713'', R_Amount = 100, R_Sent = 100,
      R_Now = 10\<rparr>"

definition second_request :: withdraw_request where
  "second_request =
     \<lparr>R_UserID = 1, R_Order = ''2377225624'', R_Amount = 100, R_Sent = 100,
      R_Now = 10\<rparr>"

text \<open>
  Amounts with cents. User 1 has a PROCESSED order of 0.30 and withdraws 0.1: the request
  carries the \<^verbatim>\<open>float64\<close> nearest to 0.1, for which the driver writes 0.1.
\<close>

definition processed_three_tenths :: http_outcome where
  "processed_three_tenths =
     Responded \<lparr>StatusCode = 200, RetryAfter = [],
       Body = Decoded \<lparr>A_Order = ''12345678903'', A_Status = ''PROCESSED'',
                        A_Accrual = 3 / 10\<rparr>\<rparr>"

definition cents_run :: "event list" where
  "cents_run =
     [Upload 0 (Some 1) (Some ''12345678903''),
      ProcStep 1 0 DoFailed,
      ProcStep 2 0 processed_three_tenths,
      ProcStep 3 0 DoFailed,
      Withdraw 4 (Some 1) (Some (''2377225624'', float64 (1 / 10))) (1 / 10)]"

text \<open>
  A ledger with one PROCESSED order of 0.80 for user 1, a request for 0.1 and a request
  for 0.70000000000000005, which is the \<^verbatim>\<open>float64\<close> just above the one nearest to 0.7;
  the driver writes 0.1 and 0.7000000000000001 for them.
\<close>

definition eight_tenths :: db where
  "eight_tenths =
     \<lparr>orders = [\<lparr>Number = ''12345678903'', UserID = 1, Status = ''PROCESSED'',
                  Accrual = 8 / 10, UploadedAt = 0\<rparr>],
      withdrawals = []\<rparr>"

definition tenth_request :: withdraw_request where
  "tenth_request =
     \<lparr>R_UserID = 1, R_Order = ''79927398713'', R_Amount = float64 (1 / 10),
      R_Sent = 1 / 10, R_Now = 10\<rparr>"

definition rest_request :: withdraw_request where
  "rest_request =
     \<lparr>R_UserID = 1, R_Order = ''2377225624'',
      R_Amount = 6305039478318695 / 9007199254740992,
      R_Sent = 7000000000000001 / 10000000000000000, R_Now = 11\<rparr>"

text \<open>A system holding one NEW order, and an accrual service that has processed it.\<close>

definition one_new_order :: sys where
  "one_new_order =
     \<lparr>ledger = \<lparr>orders = [\<lparr>Number = ''12345678903'', UserID = 1, Status = ''NEW'',
                            Accrual = 0, UploadedAt = 0\<rparr>],
                withdrawals = []\<rparr>,
      procs = [], polls = []\<rparr>"

definition always_processed_500 :: "string \<Rightarrow> http_outcome" where
  "always_processed_500 orderNumber = processed_500"

text \<open>
  Two submissions one second apart; the accrual service answers the first with 429 and
  \<^verbatim>\<open>Retry-After: 60\<close>, the second with 204.
\<close>

definition too_many_requests_60 :: http_outcome where
  "too_many_requests_60 =
     Responded \<lparr>StatusCode = 429, RetryAfter = ''60'', Body = ReadFailed\<rparr>"

definition no_content :: http_outcome where
  "no_content = Responded \<lparr>StatusCode = 204, RetryAfter = [], Body = ReadFailed\<rparr>"

definition rate_limited_run :: "event list" where
  "rate_limited_run =
     [Upload 0 (Some 1) (Some ''12345678903''),
      ProcStep 0 0 DoFailed,
      ProcStep 0 0 too_many_requests_60,
      Upload 1 (Some 1) (Some ''79927398713''),
      ProcStep 1 0 DoFailed,
      ProcStep 1 0 no_content]"

text \<open>The events that follow the scenario in the examples: a second user tries the same
  order number, the processor ticks, the first user tries to withdraw, and the second
  user submits an order of their own, which the accrual service has processed.\<close>

definition later_events :: "event list" where
  "later_events =
     [Upload 20 (Some 2) (Some ''12345678903''),
      Tick 25,
      Withdraw 26 (Some 1) (Some (''2377225624'', 1)) 1,
      Upload 27 (Some 2) (Some ''79927398713''),
      ProcStep 28 0 DoFailed,
      ProcStep 29 0 processed_500,
      ProcStep 30 0 DoFailed]"

subsection \<open>Terminal statuses and pending goroutines\<close>

definition terminal :: "string \<Rightarrow> bool" where
  "terminal status = (status = StatusProcessed \<or> status = StatusInvalid)"

text \<open>
  What holds of every state the system reaches: order numbers are unique, at most one
  goroutine is pending for a number, and the order of a pending goroutine is not
  terminal.
\<close>

definition goroutines_pending :: "sys \<Rightarrow> bool" where
  "goroutines_pending s =
     (distinct (map Number (orders (ledger s))) \<and>
      distinct (map proc_number (procs s)) \<and>
      (\<forall>p\<in>set (procs s). \<exists>ord\<in>set (orders (ledger s)).
          Number ord = proc_number p \<and> \<not> terminal (Status ord)))"

section \<open>Properties\<close>

subsection \<open>float64: evaluation, and whole numbers\<close>

lemma floor_rat_numeral: "\<lfloor>numeral a / numeral b :: rat\<rfloor> = numeral a div numeral b"
  using floor_divide_of_int_eq[of "numeral a" "numeral b", where ?'a = rat] by simp

lemma floor_rat_one: "\<lfloor>1 / numeral b :: rat\<rfloor> = 1 div numeral b"
  using floor_divide_of_int_eq[of 1 "numeral b", where ?'a = rat] by simp

lemma ceiling_rat_numeral:
  "\<lceil>numeral a / numeral b :: rat\<rceil> = - (- numeral a div numeral b)"
  using ceiling_divide_eq_div[of "numeral a" "numeral b", where ?'a = rat] by simp

lemmas float64_eval =
  float64_def ilog2_def pow2_def round_half_even_def bits.simps Let_def
  floor_rat_numeral ceiling_rat_numeral

text \<open>
  The values Go computes: 0.1 and 0.2 are not \<^verbatim>\<open>float64\<close> values, \<^verbatim>\<open>0.3 - 0.1\<close> is
  0.19999999999999998 and \<^verbatim>\<open>0.8 - 0.1\<close> is 0.7000000000000001.
\<close>

lemma float64_examples:
  "float64 500 = 500"
  "float64 (- 5) = - 5"
  "float64 (1 / 10) = 3602879701896397 / 36028797018963968"
  "float64 (1 / 5) = 3602879701896397 / 18014398509481984"
  "float64 (float64 (3 / 10) - float64 (1 / 10)) = 7205759403792793 / 36028797018963968"
  "float64 (float64 (8 / 10) - float64 (1 / 10)) = 6305039478318695 / 9007199254740992"
  "float64 (7 / 10) = 6305039478318694 / 9007199254740992"
  by (simp_all add: float64_eval)

lemma bits_le: "n < 2 ^ k \<Longrightarrow> bits n \<le> k"
proof (induction k arbitrary: n)
  case 0
  then show ?case by (simp add: bits.simps)
next
  case (Suc k)
  show ?case
  proof (cases "n = 0")
    case True
    then show ?thesis by (simp add: bits.simps)
  next
    case False
    have "n div 2 < 2 ^ k" using Suc.prems by simp
    then have "bits (n div 2) \<le> k" by (rule Suc.IH)
    then show ?thesis using False by (simp add: bits.simps[of n])
  qed
qed

lemma round_half_even_of_int: "round_half_even (of_int k) = k"
  by (simp add: round_half_even_def)

lemma float64_of_int:
  assumes "\<bar>n\<bar> < 2 ^ 53"
  shows "float64 (of_int n) = of_int n"
proof (cases "n = 0")
  case True
  then show ?thesis by (simp add: float64_def)
next
  case False
  define a :: int where "a = \<bar>n\<bar>"
  define x :: rat where "x = of_int n"
  have a1: "1 \<le> a" using False by (simp add: a_def)
  have "nat a < 2 ^ 53" using assms by (simp add: a_def nat_less_iff)
  then have b: "bits (nat a) \<le> 53" by (rule bits_le)
  define j :: nat where "j = 53 - bits (nat a)"
  have abs_eq: "\<bar>x\<bar> = of_int a" by (simp add: a_def x_def)
  have e: "ilog2 \<bar>x\<bar> - 52 = - int j"
    unfolding abs_eq using a1 b by (simp add: ilog2_def j_def)
  have p: "pow2 (- int j) = 1 / 2 ^ j"
    by (simp add: pow2_def)
  have q: "\<bar>x\<bar> / pow2 (- int j) = of_int (a * 2 ^ j)"
    unfolding abs_eq by (simp add: p)
  have m: "round_half_even (\<bar>x\<bar> / pow2 (- int j)) = a * 2 ^ j"
    unfolding q by (rule round_half_even_of_int)
  have x0: "x \<noteq> 0" using False by (simp add: x_def)
  have "float64 x = sgn x * of_int (round_half_even (\<bar>x\<bar> / pow2 (ilog2 \<bar>x\<bar> - 52)))
                      * pow2 (ilog2 \<bar>x\<bar> - 52)"
    unfolding float64_def Let_def using x0 by (simp only: if_False)
  also have "\<dots> = sgn x * of_int (a * 2 ^ j) * (1 / 2 ^ j)"
    unfolding e unfolding m unfolding p ..
  also have "\<dots> = sgn x * of_int a"
    by simp
  also have "\<dots> = x"
    by (simp add: a_def x_def sgn_if)
  finally show ?thesis by (simp add: x_def)
qed

lemma representable_of_int: "\<bar>n\<bar> < 2 ^ 53 \<Longrightarrow> representable (of_int n)"
  by (simp add: representable_def float64_of_int)

subsection \<open>strconv: what ParseInt returns on a string of digits\<close>

lemma decimal_value_mono: "n \<le> decimal_value n cs"
proof (induction cs arbitrary: n)
  case Nil
  show ?case by simp
next
  case (Cons c cs)
  have "n \<le> n * 10 + (of_char c - of_char CHR ''0'')" by simp
  also have "\<dots> \<le> decimal_value (n * 10 + (of_char c - of_char CHR ''0'')) cs"
    by (rule Cons.IH)
  finally show ?case by simp
qed

lemma decimal_value_mono10: "cs \<noteq> [] \<Longrightarrow> n * 10 \<le> decimal_value n cs"
proof (cases cs)
  case Nil
  assume "cs \<noteq> []"
  with Nil show ?thesis by simp
next
  case (Cons c cs')
  have "n * 10 \<le> n * 10 + (of_char c - of_char CHR ''0'')" by simp
  also have "\<dots> \<le> decimal_value (n * 10 + (of_char c - of_char CHR ''0'')) cs'"
    by (rule decimal_value_mono)
  finally show ?thesis using Cons by simp
qed

lemma ParseUint_loop_digits:
  "list_all is_digit cs \<Longrightarrow> n \<le> maxUint64 \<Longrightarrow>
   ParseUint_loop n cs =
     (if decimal_value n cs \<le> maxUint64 then Inr (decimal_value n cs) else Inl ErrRange)"
proof (induction cs arbitrary: n)
  case Nil
  then show ?case by simp
next
  case (Cons c cs)
  define d :: nat where "d = of_char c - of_char CHR ''0''"
  have rest: "list_all is_digit cs"
    using Cons.prems(1) by simp
  have dig: "CHR ''0'' \<le> c" "c \<le> CHR ''9''"
    using Cons.prems(1) by (simp_all add: is_digit_def)
  have d48: "of_char c - 48 = d" by (simp add: d_def)
  have d9: "d \<le> 9"
    using dig by (simp add: d_def less_eq_char_def)
  show ?case
  proof (cases "n \<ge> maxUint64 div 10 + 1")
    case True
    then have "n * 10 > maxUint64" by (simp add: maxUint64_def)
    moreover have "n * 10 \<le> decimal_value n (c # cs)"
      by (rule decimal_value_mono10) simp
    ultimately show ?thesis using True dig by simp
  next
    case False
    then have n10: "n * 10 < 2 ^ 64" by (simp add: maxUint64_def)
    show ?thesis
    proof (cases "n * 10 + d \<le> maxUint64")
      case True
      then have lt: "n * 10 + d < 2 ^ 64" by (simp add: maxUint64_def)
      have "ParseUint_loop n (c # cs) = ParseUint_loop (n * 10 + d) cs"
        using False dig n10 lt True by (simp add: d48 Let_def)
      also have "\<dots> = (if decimal_value (n * 10 + d) cs \<le> maxUint64
                       then Inr (decimal_value (n * 10 + d) cs) else Inl ErrRange)"
        by (rule Cons.IH[OF rest True])
      finally show ?thesis by (simp add: d_def)
    next
      case over: False
      then have ge: "n * 10 + d \<ge> 2 ^ 64" by (simp add: maxUint64_def)
      have lt2: "n * 10 + d < 2 * 2 ^ 64" using n10 d9 by simp
      have "(n * 10 + d) mod 2 ^ 64 = n * 10 + d - 2 ^ 64"
        using ge lt2 by (simp add: mod_if)
      then have wrap: "(n * 10 + d) mod 2 ^ 64 < n * 10"
        using ge d9 by simp
      have "decimal_value n (c # cs) \<ge> n * 10 + d"
        using decimal_value_mono[of "n * 10 + d" cs] by (simp add: d_def)
      then have big: "\<not> decimal_value n (c # cs) \<le> maxUint64" using over by simp
      have "ParseUint_loop n (c # cs) = Inl ErrRange"
        using False dig n10 wrap by (simp add: d48 Let_def)
      then show ?thesis using big by simp
    qed
  qed
qed

lemma ParseInt_digits:
  assumes "list_all is_digit s" and "s \<noteq> []"
  shows "ParseInt s =
           (if decimal_value 0 s \<le> maxInt64 then Inr (int (decimal_value 0 s))
            else Inl ErrRange)"
proof -
  obtain c cs where s: "s = c # cs" using assms(2) by (cases s) auto
  have dig: "CHR ''0'' \<le> c" "c \<le> CHR ''9''"
    using assms(1) s by (simp_all add: is_digit_def)
  have nosign: "c \<noteq> CHR ''+''" "c \<noteq> CHR ''-''"
    using dig by (auto simp: less_eq_char_def)
  have pu: "ParseUint s =
              (if decimal_value 0 s \<le> maxUint64 then Inr (decimal_value 0 s)
               else Inl ErrRange)"
    using ParseUint_loop_digits[OF assms(1), of 0] assms(2) by (simp add: ParseUint_def)
  show ?thesis
  proof (cases "decimal_value 0 s \<le> maxUint64")
    case True
    then have "ParseUint (c # cs) = Inr (decimal_value 0 (c # cs))" using pu s by simp
    then show ?thesis
      using nosign s by (simp add: ParseInt_def maxInt64_def Let_def)
  next
    case False
    then have "ParseUint (c # cs) = Inl ErrRange" using pu s by simp
    moreover have "\<not> decimal_value 0 s \<le> maxInt64"
      using False by (simp add: maxInt64_def maxUint64_def)
    ultimately show ?thesis
      using nosign s by (simp add: ParseInt_def maxUint64_def Let_def)
  qed
qed

lemma IsNumeric_digits:
  "list_all is_digit s \<Longrightarrow> s \<noteq> [] \<Longrightarrow> IsNumeric s = (decimal_value 0 s \<le> maxInt64)"
  by (simp add: IsNumeric_def ParseInt_digits)

lemmas strconv_eval = ParseInt_def ParseUint_def maxUint64_def less_eq_char_def less_char_def

lemma ParseInt_examples:
  "ParseInt ''9223372036854775807'' = Inr 9223372036854775807"
  "ParseInt ''9223372036854775808'' = Inl ErrRange"
  "ParseInt ''-9223372036854775808'' = Inr (- 9223372036854775808)"
  "ParseInt ''00000000000000000000'' = Inr 0"
  "ParseInt ''+'' = Inl ErrSyntax"
  "ParseInt ''12a'' = Inl ErrSyntax"
  "ParseInt '''' = Inl ErrSyntax"
  by (simp_all add: strconv_eval)

subsection \<open>The Luhn validator\<close>

lemma collect_digits_None_iff:
  "collect_digits acc s = None \<longleftrightarrow> (\<exists>c\<in>set s. c < CHR ''0'' \<or> c > CHR ''9'')"
  by (induction s arbitrary: acc) auto

lemma ValidateLuhn_examples:
  "ValidateLuhn ''79927398713''"
  "\<not> ValidateLuhn ''79927398710''"
  "\<not> ValidateLuhn ''12a4''"
  "ValidateLuhn ''12345678903''"
  by (simp_all add: ValidateLuhn_def less_char_def)

text \<open>
  Claim C8, as the code has it: for every input string that contains at least one
  non-digit character \<^verbatim>\<open>ValidateLuhn\<close> returns false; for the empty string it returns
  true (no digit is read, the sum is 0, and 0 is divisible by 10). The empty order number
  is turned away by the callers: \<^verbatim>\<open>UploadOrder\<close> answers 400 to an empty body and
  \<^verbatim>\<open>IsNumeric\<close> is false on the empty string.
\<close>

theorem ValidateLuhn_rejects_non_digits_accepts_empty:
  "(c \<in> set number \<and> (c < CHR ''0'' \<or> c > CHR ''9'') \<longrightarrow> \<not> ValidateLuhn number)
   \<and> ValidateLuhn ''''"
proof
  show "c \<in> set number \<and> (c < CHR ''0'' \<or> c > CHR ''9'') \<longrightarrow> \<not> ValidateLuhn number"
  proof
    assume "c \<in> set number \<and> (c < CHR ''0'' \<or> c > CHR ''9'')"
    then have "\<exists>c\<in>set number. c < CHR ''0'' \<or> c > CHR ''9''" by blast
    then have "collect_digits [] number = None"
      by (simp only: collect_digits_None_iff)
    then show "\<not> ValidateLuhn number" by (simp add: ValidateLuhn_def)
  qed
  show "ValidateLuhn ''''" by (simp add: ValidateLuhn_def)
qed

theorem ValidateLuhn_rejects_non_digits_witness:
  "CHR ''a'' \<in> set ''12a4'' \<and> CHR ''a'' > CHR ''9'' \<and> \<not> ValidateLuhn ''12a4''"
  using ValidateLuhn_rejects_non_digits_accepts_empty [of "CHR ''a''" "''12a4''"]
  by (simp add: less_char_def)

text \<open>The claim as stated asks for false on the empty string.\<close>

theorem ValidateLuhn_empty_counterexample: "\<not> (ValidateLuhn '''' = False)"
  by (simp add: ValidateLuhn_def)

subsection \<open>Order numbers beyond the 64-bit range\<close>

text \<open>
  Claim C10: for every non-empty all-digit order number that does not parse as a signed
  64-bit integer, that is, whose value is above 9223372036854775807, order submission and
  withdrawal both answer 422 (invalid order number format) and leave the system as it
  was, whether or not the string passes the Luhn checksum. By \<open>IsNumeric_digits\<close> the
  value test is exactly the failure of \<^verbatim>\<open>strconv.ParseInt\<close>; leading zeros do not count
  (\<open>ParseInt_examples\<close>: twenty zeros parse as 0).
\<close>

theorem unparsable_digit_string_rejected:
  assumes "list_all is_digit orderNumber" and "orderNumber \<noteq> []"
    and "maxInt64 < decimal_value 0 orderNumber"
  shows "Handler_UploadOrder s (Some userID) (Some orderNumber) now = (422, s) \<and>
         Handler_WithdrawBalance s (Some userID) (Some (orderNumber, amount)) sent now
           = (422, s)"
proof -
  have "\<not> IsNumeric orderNumber"
    using assms by (simp add: IsNumeric_digits)
  then show ?thesis
    using assms(2) by (simp add: Handler_UploadOrder_def Handler_WithdrawBalance_def)
qed

theorem unparsable_digit_string_rejected_witness:
  "list_all is_digit ''9223372036854775809'' \<and> ''9223372036854775809'' \<noteq> [] \<and>
   maxInt64 < decimal_value 0 ''9223372036854775809'' \<and>
   ValidateLuhn ''9223372036854775809'' \<and>
   Handler_UploadOrder init_sys (Some 1) (Some ''9223372036854775809'') 0 = (422, init_sys) \<and>
   Handler_WithdrawBalance init_sys (Some 1) (Some (''9223372036854775809'', 10)) 10 0
     = (422, init_sys)"
proof -
  have a: "list_all is_digit ''9223372036854775809''"
    by (simp add: is_digit_def less_eq_char_def)
  have b: "''9223372036854775809'' \<noteq> []" by simp
  have c: "maxInt64 < decimal_value 0 ''9223372036854775809''"
    by (simp add: maxInt64_def)
  have l: "ValidateLuhn ''9223372036854775809''"
    by (simp add: ValidateLuhn_def less_char_def)
  show ?thesis
    using a b c l unparsable_digit_string_rejected [OF a b c, of init_sys 1 0 10 10]
    by simp
qed

subsection \<open>The balance query\<close>

lemma COALESCE_sql_sum: "COALESCE (sql_sum xs) 0 = sum_list xs"
proof (induction xs)
  case Nil
  show ?case by (simp add: COALESCE_def)
next
  case (Cons x xs)
  then show ?case
    by (cases "sql_sum xs") (simp_all add: COALESCE_def)
qed

lemma GetUserBalance_totals:
  "GetUserBalance d userID =
     \<lparr>Current = float64 (float64 (processed_accrual_total d userID)
                          - float64 (withdrawal_total d userID)),
      Withdrawn = float64 (withdrawal_total d userID)\<rparr>"
  by (simp add: GetUserBalance_def Let_def COALESCE_sql_sum sum_list_map_filter'
      processed_accrual_total_def withdrawal_total_def)

text \<open>
  Claim C1, as the code has it: for every user, after any sequence of submissions,
  ticks, goroutine calls and withdrawals from any state, the balance returned by
  \<^verbatim>\<open>GetUserBalance\<close> has withdrawn = the \<^verbatim>\<open>float64\<close> nearest to the sum of the amounts
  of that user's withdrawals, and current = the \<^verbatim>\<open>float64\<close> difference of the
  \<^verbatim>\<open>float64\<close> nearest to the sum of the accrual of that user's PROCESSED orders and
  that withdrawn value. They are the two sums' difference and the sum of withdrawals
  themselves whenever the two sums and their difference are \<^verbatim>\<open>float64\<close> values.
\<close>

theorem GetUserBalance_float64_after_any_run:
  "GetUserBalance (ledger (run evs s)) userID =
     \<lparr>Current = float64 (float64 (processed_accrual_total (ledger (run evs s)) userID)
                          - float64 (withdrawal_total (ledger (run evs s)) userID)),
      Withdrawn = float64 (withdrawal_total (ledger (run evs s)) userID)\<rparr> \<and>
   (representable (processed_accrual_total (ledger (run evs s)) userID) \<and>
    representable (withdrawal_total (ledger (run evs s)) userID) \<and>
    representable (processed_accrual_total (ledger (run evs s)) userID
                   - withdrawal_total (ledger (run evs s)) userID) \<longrightarrow>
    GetUserBalance (ledger (run evs s)) userID =
      \<lparr>Current = processed_accrual_total (ledger (run evs s)) userID
                  - withdrawal_total (ledger (run evs s)) userID,
       Withdrawn = withdrawal_total (ledger (run evs s)) userID\<rparr>)"
  by (simp add: GetUserBalance_totals representable_def)

lemmas handler_eval =
  Handler_UploadOrder_def Handler_WithdrawBalance_def IsNumeric_def ValidateLuhn_def
  ParseInt_def ParseUint_def maxUint64_def less_eq_char_def less_char_def
  GetOrderByNumber_def CreateOrder_def WithdrawBalance_def GetUserBalance_def
  UpdateOrderStatus_def COALESCE_def Let_def
  StatusNew_def StatusProcessing_def StatusProcessed_def StatusInvalid_def
  float64_eval numeric_10_2_def floor_rat_one

lemmas accrual_eval =
  GetOrderAccrual_def record_poll_def Atoi_def remove_nth_def processPendingOrders_def

lemma scenario_run:
  "run scenario init_sys =
     \<lparr>ledger =
        \<lparr>orders = [\<lparr>Number = ''12345678903'', UserID = 1, Status = ''PROCESSED'',
                     Accrual = 500, UploadedAt = 0\<rparr>],
         withdrawals = [\<lparr>W_UserID = 1, W_Order = ''2377225624'', W_Sum = 500,
                          ProcessedAt = 9\<rparr>]\<rparr>,
      procs = [],
      polls = [(7, ''12345678903'',
                Inr (Some \<lparr>A_Order = ''12345678903'', A_Status = ''PROCESSED'',
                            A_Accrual = 500\<rparr>))]\<rparr>"
  by (simp add: scenario_def processed_500_def init_sys_def handler_eval accrual_eval)

lemma scenario_balance:
  "GetUserBalance (ledger (run scenario init_sys)) 1 = \<lparr>Current = 0, Withdrawn = 500\<rparr>"
  by (simp add: scenario_run handler_eval)

lemma scenario_totals:
  "processed_accrual_total (ledger (run scenario init_sys)) 1 = 500"
  "withdrawal_total (ledger (run scenario init_sys)) 1 = 500"
  by (simp_all add: scenario_run processed_accrual_total_def withdrawal_total_def
      StatusProcessed_def)

theorem GetUserBalance_float64_witness:
  "representable (processed_accrual_total (ledger (run scenario init_sys)) 1) \<and>
   representable (withdrawal_total (ledger (run scenario init_sys)) 1) \<and>
   representable (processed_accrual_total (ledger (run scenario init_sys)) 1
                  - withdrawal_total (ledger (run scenario init_sys)) 1) \<and>
   GetUserBalance (ledger (run scenario init_sys)) 1 = \<lparr>Current = 0, Withdrawn = 500\<rparr>"
proof -
  have r: "float64 500 = 500" "float64 0 = 0"
    by (simp_all add: float64_eval)
  show ?thesis
    using r GetUserBalance_float64_after_any_run [of scenario init_sys 1]
    by (simp add: scenario_totals representable_def)
qed

text \<open>
  Claim C1 as stated asks for the exact difference of the two sums. After the order of
  0.30 is processed and 0.1 is withdrawn, the sums are 0.30 and 0.10 and their difference
  is 0.20, but the balance returned has current 0.19999999999999998, which is neither
  0.2 nor the \<^verbatim>\<open>float64\<close> nearest to it.
\<close>

lemma cents_run_ledger:
  "ledger (run cents_run init_sys) =
     \<lparr>orders = [\<lparr>Number = ''12345678903'', UserID = 1, Status = ''PROCESSED'',
                  Accrual = 3 / 10, UploadedAt = 0\<rparr>],
      withdrawals = [\<lparr>W_UserID = 1, W_Order = ''2377225624'', W_Sum = 1 / 10,
                       ProcessedAt = 4\<rparr>]\<rparr>"
  by (simp add: cents_run_def processed_three_tenths_def init_sys_def handler_eval
      accrual_eval)

theorem balance_rounding_counterexample:
  "processed_accrual_total (ledger (run cents_run init_sys)) 1
     - withdrawal_total (ledger (run cents_run init_sys)) 1 = 1 / 5 \<and>
   Current (GetUserBalance (ledger (run cents_run init_sys)) 1)
     = 7205759403792793 / 36028797018963968 \<and>
   Current (GetUserBalance (ledger (run cents_run init_sys)) 1)
     \<noteq> processed_accrual_total (ledger (run cents_run init_sys)) 1
       - withdrawal_total (ledger (run cents_run init_sys)) 1 \<and>
   Current (GetUserBalance (ledger (run cents_run init_sys)) 1) \<noteq> float64 (1 / 5)"
  by (simp add: cents_run_ledger processed_accrual_total_def withdrawal_total_def
      StatusProcessed_def GetUserBalance_def COALESCE_def float64_eval)

text \<open>
  On that ledger a request for 0.2 (the \<^verbatim>\<open>float64\<close> nearest to it) is answered 402:
  the balance compared is 0.19999999999999998.
\<close>

lemma cents_refusal_example:
  "Handler_WithdrawBalance (run cents_run init_sys) (Some 1)
       (Some (''79927398713'', float64 (1 / 5))) (1 / 5) 5
     = (402, run cents_run init_sys)"
proof -
  have "Current (GetUserBalance (ledger (run cents_run init_sys)) 1) < float64 (1 / 5)"
    by (simp add: cents_run_ledger StatusProcessed_def GetUserBalance_def COALESCE_def
        float64_eval)
  moreover have "IsNumeric ''79927398713'' \<and> ValidateLuhn ''79927398713''"
    by (simp add: IsNumeric_def ValidateLuhn_def strconv_eval)
  ultimately show ?thesis
    by (simp add: Handler_WithdrawBalance_def WithdrawBalance_def Let_def)
qed

subsection \<open>Withdrawals\<close>

text \<open>
  Claim C3: for every withdrawal request whose amount is strictly greater than the
  user's current balance (the value \<^verbatim>\<open>GetUserBalance\<close> returns), \<^verbatim>\<open>WithdrawBalance\<close>
  returns the error "insufficient funds" and the ledger is unchanged: no withdrawal
  record is created, whatever decimal would be sent for the amount. The handler, which
  validates the order label first, answers 402 to such a request with a valid label (422
  to one with an invalid label) and leaves the whole system unchanged.
\<close>

theorem withdraw_above_balance_insufficient_funds:
  assumes "Current (GetUserBalance (ledger s) userID) < amount"
  shows "WithdrawBalance (ledger s) userID orderNumber amount sent now
           = (Some ErrInsufficientFunds, ledger s) \<and>
         Handler_WithdrawBalance s (Some userID) (Some (orderNumber, amount)) sent now
           = (if IsNumeric orderNumber \<and> ValidateLuhn orderNumber then 402 else 422, s)"
  using assms by (simp add: WithdrawBalance_def Handler_WithdrawBalance_def Let_def)

theorem withdraw_above_balance_witness:
  "Current (GetUserBalance (ledger (run scenario init_sys)) 1) < 1 \<and>
   WithdrawBalance (ledger (run scenario init_sys)) 1 ''79927398713'' 1 1 10
     = (Some ErrInsufficientFunds, ledger (run scenario init_sys)) \<and>
   Handler_WithdrawBalance (run scenario init_sys) (Some 1) (Some (''79927398713'', 1))
       1 10
     = (402, run scenario init_sys)"
proof -
  have h: "Current (GetUserBalance (ledger (run scenario init_sys)) 1) < 1"
    by (simp add: scenario_balance)
  have v: "IsNumeric ''79927398713'' \<and> ValidateLuhn ''79927398713''"
    by (simp add: IsNumeric_def ValidateLuhn_def strconv_eval)
  show ?thesis
    using h v withdraw_above_balance_insufficient_funds
                [OF h, of "''79927398713''" 1 10]
    by simp
qed





subsection \<open>Two withdrawals at once\<close>

lemma totals_after_insert:
  "processed_accrual_total
     (d\<lparr>withdrawals := withdrawals d @
          [\<lparr>W_UserID = userID, W_Order = label, W_Sum = v, ProcessedAt = now\<rparr>]\<rparr>) userID
     = processed_accrual_total d userID"
  "withdrawal_total
     (d\<lparr>withdrawals := withdrawals d @
          [\<lparr>W_UserID = userID, W_Order = label, W_Sum = v, ProcessedAt = now\<rparr>]\<rparr>) userID
     = withdrawal_total d userID + v"
  by (simp_all add: processed_accrual_total_def withdrawal_total_def)

lemma withdraw_steps_sequential:
  "withdraw_step r (fst (withdraw_step r W_Start d)) (snd (withdraw_step r W_Start d)) =
     (W_Done (fst (WithdrawBalance d (R_UserID r) (R_Order r) (R_Amount r) (R_Sent r)
                     (R_Now r))),
      snd (WithdrawBalance d (R_UserID r) (R_Order r) (R_Amount r) (R_Sent r) (R_Now r)))"
  by (simp add: WithdrawBalance_def Let_def split: option.split)

text \<open>The schedule that serves the first request and then the second.\<close>

lemma interleave_serial:
  "interleave [False, False, True, True] r1 r2 (W_Start, W_Start, d) =
     (W_Done (fst (WithdrawBalance d (R_UserID r1) (R_Order r1) (R_Amount r1) (R_Sent r1)
                     (R_Now r1))),
      W_Done (fst (WithdrawBalance
                (snd (WithdrawBalance d (R_UserID r1) (R_Order r1) (R_Amount r1)
                        (R_Sent r1) (R_Now r1)))
                (R_UserID r2) (R_Order r2) (R_Amount r2) (R_Sent r2) (R_Now r2))),
      snd (WithdrawBalance
             (snd (WithdrawBalance d (R_UserID r1) (R_Order r1) (R_Amount r1)
                     (R_Sent r1) (R_Now r1)))
             (R_UserID r2) (R_Order r2) (R_Amount r2) (R_Sent r2) (R_Now r2)))"
  by (simp add: WithdrawBalance_def Let_def split: option.split)

lemma interleave_serial_swapped:
  "interleave [True, True, False, False] r1 r2 (W_Start, W_Start, d) =
     (W_Done (fst (WithdrawBalance
                (snd (WithdrawBalance d (R_UserID r2) (R_Order r2) (R_Amount r2)
                        (R_Sent r2) (R_Now r2)))
                (R_UserID r1) (R_Order r1) (R_Amount r1) (R_Sent r1) (R_Now r1))),
      W_Done (fst (WithdrawBalance d (R_UserID r2) (R_Order r2) (R_Amount r2) (R_Sent r2)
                     (R_Now r2))),
      snd (WithdrawBalance
             (snd (WithdrawBalance d (R_UserID r2) (R_Order r2) (R_Amount r2)
                     (R_Sent r2) (R_Now r2)))
             (R_UserID r1) (R_Order r1) (R_Amount r1) (R_Sent r1) (R_Now r1)))"
  by (simp add: WithdrawBalance_def Let_def split: option.split)

lemma serial_not_both:
  assumes exact: "exact_withdrawal d r" and u: "R_UserID r = userID"
    and more: "Current (GetUserBalance d userID) < R_Amount r + a2"
  shows "\<not> (fst (WithdrawBalance d userID (R_Order r) (R_Amount r) (R_Sent r) (R_Now r))
              = None \<and>
            fst (WithdrawBalance
                   (snd (WithdrawBalance d userID (R_Order r) (R_Amount r) (R_Sent r)
                           (R_Now r)))
                   userID l2 a2 sent2 t2) = None)"
proof -
  define A where "A = processed_accrual_total d userID"
  define W where "W = withdrawal_total d userID"
  have rep: "float64 A = A" "float64 W = W" "float64 (A - W) = A - W"
    "float64 (W + R_Amount r) = W + R_Amount r"
    "float64 (A - (W + R_Amount r)) = A - (W + R_Amount r)"
    and st: "numeric_10_2 (R_Sent r) = Some (R_Amount r)"
    using exact u by (simp_all add: exact_withdrawal_def representable_def A_def W_def)
  have cur: "Current (GetUserBalance d userID) = A - W"
    by (simp add: GetUserBalance_totals rep A_def[symmetric] W_def[symmetric])
  show ?thesis
  proof (cases "A - W < R_Amount r")
    case True
    then show ?thesis by (simp add: WithdrawBalance_def Let_def cur)
  next
    case False
    define d1 where "d1 = d\<lparr>withdrawals := withdrawals d @
           [\<lparr>W_UserID = userID, W_Order = R_Order r, W_Sum = R_Amount r,
             ProcessedAt = R_Now r\<rparr>]\<rparr>"
    have first: "snd (WithdrawBalance d userID (R_Order r) (R_Amount r) (R_Sent r) (R_Now r))
                   = d1"
      using False by (simp add: WithdrawBalance_def Let_def cur st d1_def)
    have "Current (GetUserBalance d1 userID) = A - (W + R_Amount r)"
      unfolding d1_def
      by (simp add: GetUserBalance_totals totals_after_insert rep
          A_def[symmetric] W_def[symmetric])
    moreover have "A - (W + R_Amount r) < a2"
      using more cur by simp
    ultimately have "fst (WithdrawBalance d1 userID l2 a2 sent2 t2) = Some ErrInsufficientFunds"
      by (simp add: WithdrawBalance_def Let_def)
    then show ?thesis unfolding first by simp
  qed
qed

text \<open>
  Claim C2, as the code has it: the balance query and the insert of \<^verbatim>\<open>WithdrawBalance\<close>
  are two separate statements outside any transaction. When two withdrawal requests of
  one user whose amounts sum to more than the current balance are served one after the
  other (either one first, both statements of the first before the second starts), and
  the arithmetic of both is exact on the ledger (all sums and differences involved are
  \<^verbatim>\<open>float64\<close> values, as whole numbers are, and the column holds the amounts as they
  are), at most one succeeds.
\<close>

theorem serial_withdrawals_no_double_spend:
  assumes "R_UserID r1 = R_UserID r2"
    and "Current (GetUserBalance d (R_UserID r1)) < R_Amount r1 + R_Amount r2"
    and "exact_withdrawal d r1" and "exact_withdrawal d r2"
  shows "interleave [False, False, True, True] r1 r2 (W_Start, W_Start, d)
           \<noteq> (W_Done None, W_Done None, d') \<and>
         interleave [True, True, False, False] r1 r2 (W_Start, W_Start, d)
           \<noteq> (W_Done None, W_Done None, d')"
proof
  have "\<not> (fst (WithdrawBalance d (R_UserID r1) (R_Order r1) (R_Amount r1) (R_Sent r1)
                  (R_Now r1)) = None \<and>
            fst (WithdrawBalance
                   (snd (WithdrawBalance d (R_UserID r1) (R_Order r1) (R_Amount r1)
                           (R_Sent r1) (R_Now r1)))
                   (R_UserID r1) (R_Order r2) (R_Amount r2) (R_Sent r2) (R_Now r2)) = None)"
    using assms(3) refl assms(2) by (rule serial_not_both)
  then show "interleave [False, False, True, True] r1 r2 (W_Start, W_Start, d)
           \<noteq> (W_Done None, W_Done None, d')"
    unfolding interleave_serial using assms(1) by auto
next
  have lt: "Current (GetUserBalance d (R_UserID r2)) < R_Amount r2 + R_Amount r1"
    using assms(1,2) by (simp add: add.commute)
  have "\<not> (fst (WithdrawBalance d (R_UserID r2) (R_Order r2) (R_Amount r2) (R_Sent r2)
                  (R_Now r2)) = None \<and>
            fst (WithdrawBalance
                   (snd (WithdrawBalance d (R_UserID r2) (R_Order r2) (R_Amount r2)
                           (R_Sent r2) (R_Now r2)))
                   (R_UserID r2) (R_Order r1) (R_Amount r1) (R_Sent r1) (R_Now r1)) = None)"
    using assms(4) refl lt by (rule serial_not_both)
  then show "interleave [True, True, False, False] r1 r2 (W_Start, W_Start, d)
           \<noteq> (W_Done None, W_Done None, d')"
    unfolding interleave_serial_swapped using assms(1) by auto
qed

lemmas withdraw_eval =
  one_hundred_def first_request_def second_request_def GetUserBalance_def COALESCE_def
  StatusProcessed_def float64_eval numeric_10_2_def floor_rat_one

lemma one_hundred_exact:
  "exact_withdrawal one_hundred first_request"
  "exact_withdrawal one_hundred second_request"
  by (simp_all add: exact_withdrawal_def representable_def processed_accrual_total_def
      withdrawal_total_def withdraw_eval)

theorem serial_withdrawals_witness:
  "R_UserID first_request = R_UserID second_request \<and>
   Current (GetUserBalance one_hundred (R_UserID first_request))
     < R_Amount first_request + R_Amount second_request \<and>
   exact_withdrawal one_hundred first_request \<and>
   exact_withdrawal one_hundred second_request \<and>
   interleave [False, False, True, True] first_request second_request
       (W_Start, W_Start, one_hundred) =
     (W_Done None, W_Done (Some ErrInsufficientFunds),
      one_hundred\<lparr>withdrawals :=
        [\<lparr>W_UserID = 1, W_Order = ''79927398713'', W_Sum = 100, ProcessedAt = 10\<rparr>]\<rparr>)"
proof -
  have a: "R_UserID first_request = R_UserID second_request"
    by (simp add: first_request_def second_request_def)
  have b: "Current (GetUserBalance one_hundred (R_UserID first_request))
     < R_Amount first_request + R_Amount second_request"
    by (simp add: withdraw_eval)
  have c: "interleave [False, False, True, True] first_request second_request
       (W_Start, W_Start, one_hundred) =
     (W_Done None, W_Done (Some ErrInsufficientFunds),
      one_hundred\<lparr>withdrawals :=
        [\<lparr>W_UserID = 1, W_Order = ''79927398713'', W_Sum = 100, ProcessedAt = 10\<rparr>]\<rparr>)"
    by (simp add: withdraw_eval)
  show ?thesis
    using a b c one_hundred_exact
      serial_withdrawals_no_double_spend [OF a b one_hundred_exact]
    by simp
qed

text \<open>
  Claim C2 as stated asks for this under every schedule. When both balance queries run
  before both inserts, two requests for 100 against a balance of 100 both succeed, and
  the balance ends at -100.
\<close>

theorem double_spend_counterexample:
  "Current (GetUserBalance one_hundred 1) = 100 \<and>
   Current (GetUserBalance one_hundred 1)
     < R_Amount first_request + R_Amount second_request \<and>
   interleave [False, True, False, True] first_request second_request
       (W_Start, W_Start, one_hundred) =
     (W_Done None, W_Done None,
      one_hundred\<lparr>withdrawals :=
        [\<lparr>W_UserID = 1, W_Order = ''79927398713'', W_Sum = 100, ProcessedAt = 10\<rparr>,
         \<lparr>W_UserID = 1, W_Order = ''2377225624'', W_Sum = 100, ProcessedAt = 10\<rparr>]\<rparr>) \<and>
   Current (GetUserBalance
      (one_hundred\<lparr>withdrawals :=
        [\<lparr>W_UserID = 1, W_Order = ''79927398713'', W_Sum = 100, ProcessedAt = 10\<rparr>,
         \<lparr>W_UserID = 1, W_Order = ''2377225624'', W_Sum = 100, ProcessedAt = 10\<rparr>]\<rparr>) 1)
     = - 100"
  by (simp add: withdraw_eval)

text \<open>
  Without exact arithmetic the serial guarantee is lost as well: on a balance of 0.8, a
  request for 0.1 and then one for 0.70000000000000005 both succeed, although the amounts
  sum to more than the balance, because \<^verbatim>\<open>0.8 - 0.1\<close> is 0.7000000000000001 in
  \<^verbatim>\<open>float64\<close>.
\<close>

lemma serial_rounding_example:
  "Current (GetUserBalance eight_tenths 1)
     < R_Amount tenth_request + R_Amount rest_request"
  "interleave [False, False, True, True] tenth_request rest_request
       (W_Start, W_Start, eight_tenths) =
     (W_Done None, W_Done None,
      eight_tenths\<lparr>withdrawals :=
        [\<lparr>W_UserID = 1, W_Order = ''79927398713'', W_Sum = 1 / 10, ProcessedAt = 10\<rparr>,
         \<lparr>W_UserID = 1, W_Order = ''2377225624'', W_Sum = 7 / 10, ProcessedAt = 11\<rparr>]\<rparr>)"
  by (simp_all add: eight_tenths_def tenth_request_def rest_request_def GetUserBalance_def
      COALESCE_def StatusProcessed_def float64_eval numeric_10_2_def floor_rat_one)

subsection \<open>The accrual client\<close>

text \<open>
  Claim C7, as the code has it: one fetch maps status 200 with a verdict body to the
  parsed verdict, status 204 to "not registered" (no error), any other status but 429, a
  transport failure and an unreadable or malformed body to an error, and status 429 to a
  rate-limit error that carries the delay when the \<^verbatim>\<open>Retry-After\<close> header is a
  non-empty integer string; when the header is absent or does not parse, the rate-limit
  error carries no delay (there is no default of 60).
\<close>

theorem GetOrderAccrual_mapping:
  "fetch_result_of (GetOrderAccrual outcome) =
     (if rate_limited_without_delay outcome then RateLimited None
      else spec_fetchVerdict outcome)"
proof (cases outcome)
  case NewRequestFailed
  then show ?thesis
    by (simp add: GetOrderAccrual_def fetch_result_of_def spec_fetchVerdict_def
        rate_limited_without_delay_def)
next
  case DoFailed
  then show ?thesis
    by (simp add: GetOrderAccrual_def fetch_result_of_def spec_fetchVerdict_def
        rate_limited_without_delay_def)
next
  case (Responded resp)
  then show ?thesis
    by (simp add: GetOrderAccrual_def fetch_result_of_def spec_fetchVerdict_def
        rate_limited_without_delay_def split: body.split sum.split)
qed

theorem GetOrderAccrual_mapping_witness:
  "fetch_result_of (GetOrderAccrual too_many_requests_60) = RateLimited (Some 60) \<and>
   fetch_result_of (GetOrderAccrual no_content) = NotRegistered \<and>
   fetch_result_of (GetOrderAccrual processed_500) =
     Verdict \<lparr>A_Order = ''12345678903'', A_Status = ''PROCESSED'', A_Accrual = 500\<rparr>"
  using GetOrderAccrual_mapping [of too_many_requests_60]
    GetOrderAccrual_mapping [of no_content] GetOrderAccrual_mapping [of processed_500]
  by (simp add: too_many_requests_60_def no_content_def processed_500_def
      rate_limited_without_delay_def spec_fetchVerdict_def Atoi_def strconv_eval)

text \<open>
  Claim C7 as stated asks for a delay of 60 when the header is absent: the code returns
  the plain error "rate limited".
\<close>

theorem rate_limit_default_counterexample:
  "GetOrderAccrual (Responded \<lparr>StatusCode = 429, RetryAfter = [], Body = ReadFailed\<rparr>)
     = Inl ErrRateLimited \<and>
   fetch_result_of (Inl ErrRateLimited) = RateLimited None \<and>
   spec_fetchVerdict (Responded \<lparr>StatusCode = 429, RetryAfter = [], Body = ReadFailed\<rparr>)
     = RateLimited (Some 60)"
  by (simp add: GetOrderAccrual_def fetch_result_of_def spec_fetchVerdict_def)

subsection \<open>The sweep\<close>

lemma processLoop_unchanged: "processLoop signals s = s"
proof (induction signals)
  case Nil
  show ?case by simp
next
  case (Cons sig signals)
  then show ?case by (cases sig) (simp_all add: processPendingOrders_def)
qed

text \<open>
  Claim C5, as the code has it: the processor runs on one schedule with an interval of 5
  seconds; each tick calls \<^verbatim>\<open>processPendingOrders\<close>, which is a placeholder: it selects
  no order and processes none, so a tick, and the whole loop over any ticks, leave the
  system as it was.
\<close>

theorem sweep_processes_nothing:
  "interval = 5 \<and> processPendingOrders s = s \<and> processLoop signals s = s \<and>
   step (Tick now) s = s"
  by (simp add: interval_def processPendingOrders_def processLoop_unchanged)

theorem sweep_processes_nothing_witness:
  "processLoop [TickerFired, TickerFired, Stopped] one_new_order = one_new_order \<and>
   step (Tick 5) one_new_order = one_new_order"
  using sweep_processes_nothing [of one_new_order "[TickerFired, TickerFired, Stopped]" 5]
  by simp

text \<open>
  Claim C5 as stated asks each sweep to select the NEW and PROCESSING orders, oldest
  first, and to process them. On a ledger with one NEW order that the accrual service
  has processed, the specified sweep ends with the order PROCESSED and one outbound
  call; the code's tick changes nothing.
\<close>

theorem sweep_counterexample:
  "processPendingOrders one_new_order = one_new_order \<and>
   pending_orders (ledger one_new_order) = orders (ledger one_new_order) \<and>
   spec_sweep 5 always_processed_500 one_new_order =
     \<lparr>ledger = \<lparr>orders = [\<lparr>Number = ''12345678903'', UserID = 1, Status = ''PROCESSED'',
                            Accrual = 500, UploadedAt = 0\<rparr>],
                withdrawals = []\<rparr>,
      procs = [],
      polls = [(5, ''12345678903'',
                Inr (Some \<lparr>A_Order = ''12345678903'', A_Status = ''PROCESSED'',
                            A_Accrual = 500\<rparr>))]\<rparr> \<and>
   processPendingOrders one_new_order \<noteq> spec_sweep 5 always_processed_500 one_new_order"
  by (simp add: processPendingOrders_def spec_sweep_def pending_orders_def
      one_new_order_def always_processed_500_def processed_500_def
      OrderProcessor_processOrder_def GetOrderAccrual_def record_poll_def
      UpdateOrderStatus_def StatusNew_def StatusProcessing_def StatusProcessed_def
      StatusInvalid_def Let_def)

subsection \<open>Rate limiting\<close>

lemma GetOrderAccrual_429:
  "StatusCode resp = 429 \<Longrightarrow>
   GetOrderAccrual (Responded resp) =
     (if RetryAfter resp \<noteq> [] then
        (case Atoi (RetryAfter resp) of
           Inr seconds \<Rightarrow> Inl (ErrRateLimitedAfter seconds)
         | Inl err \<Rightarrow> Inl ErrRateLimited)
      else Inl ErrRateLimited)"
  by (simp add: GetOrderAccrual_def)

lemma GetOrderAccrual_429_error:
  "StatusCode resp = 429 \<Longrightarrow> \<exists>err. GetOrderAccrual (Responded resp) = Inl err"
  by (simp add: GetOrderAccrual_429 split: sum.split)

text \<open>
  Claim C6, as the code has it: when the accrual service answers 429 to the accrual
  request of an order, \<^verbatim>\<open>GetOrderAccrual\<close> returns an error, the goroutine processing
  that order returns and the ledger is unchanged; no cool-down is kept anywhere: a tick
  of the processor makes no outbound call, and any pending accrual request, in any state
  of the system and at any time, goes out when its goroutine runs.
\<close>

theorem rate_limit_suspends_nothing:
  assumes "k < length (procs s)" and "procs s ! k = GetAccrual n"
    and "StatusCode resp = 429"
    and "j < length (procs s')" and "procs s' ! j = GetAccrual m"
    and "outcome \<noteq> NewRequestFailed"
  shows "step (ProcStep now k (Responded resp)) s =
           s\<lparr>procs := remove_nth k (procs s),
              polls := polls s @ [(now, n, GetOrderAccrual (Responded resp))]\<rparr> \<and>
         isl (GetOrderAccrual (Responded resp)) \<and>
         polls (step (Tick now') s') = polls s' \<and>
         polls (step (ProcStep now' j outcome) s') =
           polls s' @ [(now', m, GetOrderAccrual outcome)]"
proof -
  obtain err where err: "GetOrderAccrual (Responded resp) = Inl err"
    using GetOrderAccrual_429_error[OF assms(3)] by blast
  have one: "step (ProcStep now k (Responded resp)) s =
           s\<lparr>procs := remove_nth k (procs s),
              polls := polls s @ [(now, n, GetOrderAccrual (Responded resp))]\<rparr>"
    using assms(1,2) err by (simp add: record_poll_def)
  have two: "isl (GetOrderAccrual (Responded resp))"
    using err by simp
  have three: "polls (step (Tick now') s') = polls s'"
    by (simp add: processPendingOrders_def)
  have four: "polls (step (ProcStep now' j outcome) s') =
           polls s' @ [(now', m, GetOrderAccrual outcome)]"
    using assms(4,5,6)
    by (simp add: record_poll_def Let_def split: sum.split option.split)
  show ?thesis using one two three four by blast
qed

lemma rate_limited_run_polls:
  "polls (run rate_limited_run init_sys) =
     [(0, ''12345678903'', Inl (ErrRateLimitedAfter 60)), (1, ''79927398713'', Inr None)]"
  by (simp add: rate_limited_run_def too_many_requests_60_def no_content_def init_sys_def
      handler_eval accrual_eval)

lemma rate_limited_run_prefix:
  "run (take 2 rate_limited_run) init_sys =
     \<lparr>ledger = \<lparr>orders = [\<lparr>Number = ''12345678903'', UserID = 1, Status = ''PROCESSING'',
                            Accrual = 0, UploadedAt = 0\<rparr>],
                withdrawals = []\<rparr>,
      procs = [GetAccrual ''12345678903''], polls = []\<rparr>"
  by (simp add: rate_limited_run_def init_sys_def handler_eval accrual_eval)

theorem rate_limit_suspends_nothing_witness:
  "step (ProcStep 0 0 too_many_requests_60) (run (take 2 rate_limited_run) init_sys) =
     \<lparr>ledger = \<lparr>orders = [\<lparr>Number = ''12345678903'', UserID = 1, Status = ''PROCESSING'',
                            Accrual = 0, UploadedAt = 0\<rparr>],
                withdrawals = []\<rparr>,
      procs = [],
      polls = [(0, ''12345678903'', Inl (ErrRateLimitedAfter 60))]\<rparr> \<and>
   polls (step (ProcStep 1 0 no_content) (run (take 2 rate_limited_run) init_sys)) =
     [(1, ''12345678903'', Inr None)]"
proof -
  let ?s = "run (take 2 rate_limited_run) init_sys"
  have a: "0 < length (procs ?s)" by (simp add: rate_limited_run_prefix)
  have b: "procs ?s ! 0 = GetAccrual ''12345678903''" by (simp add: rate_limited_run_prefix)
  have c: "StatusCode \<lparr>StatusCode = 429, RetryAfter = ''60'', Body = ReadFailed\<rparr> = 429"
    by simp
  have d: "no_content \<noteq> NewRequestFailed" by (simp add: no_content_def)
  have e: "GetOrderAccrual too_many_requests_60 = Inl (ErrRateLimitedAfter 60)"
    by (simp add: too_many_requests_60_def accrual_eval strconv_eval)
  have f: "GetOrderAccrual no_content = Inr None"
    by (simp add: no_content_def accrual_eval)
  show ?thesis
    using rate_limit_suspends_nothing [OF a b c a b d, where now = 0 and now' = 1] e f
    by (simp add: rate_limited_run_prefix too_many_requests_60_def remove_nth_def)
qed

text \<open>
  Claim C6 as stated asks that no order be polled until the delay has elapsed. An order
  submitted one second after a 429 with \<^verbatim>\<open>Retry-After: 60\<close> is polled in that second.
\<close>

theorem cooldown_counterexample:
  "\<not> cooldown_respected (polls (run rate_limited_run init_sys))"
  by (simp add: rate_limited_run_polls retry_after_def fetch_result_of_def)

subsection \<open>The goroutine of an upload\<close>

text \<open>
  The calls of the goroutine started last, run one after the other with nothing in
  between, do what \<^verbatim>\<open>Handler.processOrder\<close> does as a whole (a call on a goroutine that
  has returned is no call at all).
\<close>

lemma Handler_processOrder_calls:
  assumes "procs s = ps @ [SetProcessing n]"
  shows "run [ProcStep now (length ps) o1, ProcStep now (length ps) outcome,
              ProcStep now (length ps) o3] s =
           s\<lparr>ledger := fst (Handler_processOrder now outcome n (ledger s, polls s)),
             procs := ps,
             polls := snd (Handler_processOrder now outcome n (ledger s, polls s))\<rparr>"
proof (cases "GetOrderAccrual outcome")
  case (Inl err)
  then show ?thesis
    using assms by (simp add: Handler_processOrder_def remove_nth_def Let_def)
next
  case (Inr r)
  show ?thesis
  proof (cases r)
    case None
    then show ?thesis
      using assms Inr by (simp add: Handler_processOrder_def remove_nth_def Let_def)
  next
    case (Some accrualResp)
    then show ?thesis
      using assms Inr by (simp add: Handler_processOrder_def remove_nth_def Let_def)
  qed
qed

subsection \<open>Terminal orders\<close>

lemma not_terminal_New [simp]: "\<not> terminal StatusNew"
  by (simp add: terminal_def StatusNew_def StatusProcessed_def StatusInvalid_def)

lemma not_terminal_Processing [simp]: "\<not> terminal StatusProcessing"
  by (simp add: terminal_def StatusProcessing_def StatusProcessed_def StatusInvalid_def)

lemma Number_UpdateOrderStatus [simp]:
  "map Number (orders (UpdateOrderStatus d m status accrual)) = map Number (orders d)"
  by (simp add: UpdateOrderStatus_def comp_def if_distrib[of Number] cong: if_cong)

lemma withdrawals_UpdateOrderStatus [simp]:
  "withdrawals (UpdateOrderStatus d m status accrual) = withdrawals d"
  by (simp add: UpdateOrderStatus_def)

lemma other_order_kept:
  "ord \<in> set (orders d) \<Longrightarrow> Number ord \<noteq> m \<Longrightarrow>
   ord \<in> set (orders (UpdateOrderStatus d m status accrual))"
  by (force simp: UpdateOrderStatus_def)

lemma same_order_updated:
  "ord \<in> set (orders d) \<Longrightarrow> Number ord = m \<Longrightarrow>
   ord\<lparr>Status := status, Accrual := accrual\<rparr>
     \<in> set (orders (UpdateOrderStatus d m status accrual))"
  by (force simp: UpdateOrderStatus_def)

lemma find_other_order:
  "n \<noteq> m \<Longrightarrow>
   GetOrderByNumber (UpdateOrderStatus d m status accrual) n = GetOrderByNumber d n"
proof -
  assume nm: "n \<noteq> m"
  have "find (\<lambda>ord. Number ord = n)
          (map (\<lambda>ord. if Number ord = m
                       then ord\<lparr>Status := status, Accrual := accrual\<rparr> else ord) xs)
        = find (\<lambda>ord. Number ord = n) xs" for xs
    using nm by (induction xs) auto
  then show ?thesis by (simp add: GetOrderByNumber_def UpdateOrderStatus_def)
qed

lemma GetOrderByNumber_Some:
  "GetOrderByNumber d n = Some ord \<Longrightarrow> ord \<in> set (orders d) \<and> Number ord = n"
  by (auto simp: GetOrderByNumber_def find_Some_iff)

lemma GetOrderByNumber_None:
  "GetOrderByNumber d n = None \<Longrightarrow> n \<notin> set (map Number (orders d))"
  by (auto simp: GetOrderByNumber_def find_None_iff)

lemma same_number_same_order:
  "distinct (map Number xs) \<Longrightarrow> a \<in> set xs \<Longrightarrow> b \<in> set xs \<Longrightarrow>
   Number a = Number b \<Longrightarrow> a = b"
  by (meson distinct_map inj_onD)

text \<open>The three ways a request to upload can end, as far as the state goes.\<close>

lemma Upload_effect:
  "step (Upload now auth body) s = s \<or>
   (\<exists>userID n. n \<notin> set (map Number (orders (ledger s))) \<and>
      step (Upload now auth body) s =
        s\<lparr>ledger := (ledger s)\<lparr>orders := orders (ledger s) @
              [\<lparr>Number = n, UserID = userID, Status = StatusNew, Accrual = 0,
                UploadedAt = now\<rparr>]\<rparr>,
          procs := procs s @ [SetProcessing n]\<rparr>)"
proof (cases auth)
  case None
  then show ?thesis by (simp add: Handler_UploadOrder_def)
next
  case (Some userID)
  show ?thesis
  proof (cases body)
    case None
    then show ?thesis using Some by (simp add: Handler_UploadOrder_def)
  next
    case (Some n)
    show ?thesis
    proof (cases "n = [] \<or> \<not> IsNumeric n \<or> \<not> ValidateLuhn n")
      case True
      then show ?thesis
        using \<open>auth = Some userID\<close> Some by (auto simp: Handler_UploadOrder_def)
    next
      case valid: False
      show ?thesis
      proof (cases "GetOrderByNumber (ledger s) n")
        case (Some existing)
        then show ?thesis
          using \<open>auth = Some userID\<close> \<open>body = Some n\<close> valid
          by (simp add: Handler_UploadOrder_def)
      next
        case None
        then have fresh: "n \<notin> set (map Number (orders (ledger s)))"
          by (rule GetOrderByNumber_None)
        then have "step (Upload now auth body) s =
            s\<lparr>ledger := (ledger s)\<lparr>orders := orders (ledger s) @
              [\<lparr>Number = n, UserID = userID, Status = StatusNew, Accrual = 0,
                UploadedAt = now\<rparr>]\<rparr>,
              procs := procs s @ [SetProcessing n]\<rparr>"
          using \<open>auth = Some userID\<close> \<open>body = Some n\<close> valid None
          by (simp add: Handler_UploadOrder_def CreateOrder_def)
        with fresh show ?thesis by blast
      qed
    qed
  qed
qed

lemma Withdraw_effect:
  "orders (ledger (step (Withdraw now auth body sent) s)) = orders (ledger s) \<and>
   procs (step (Withdraw now auth body sent) s) = procs s"
  by (simp add: Handler_WithdrawBalance_def WithdrawBalance_def Let_def
      split: option.split prod.split)

lemma split_at:
  assumes "k < length xs"
  shows "\<exists>pre post. xs = pre @ xs ! k # post \<and> remove_nth k xs = pre @ post \<and>
           (\<forall>q. xs[k := q] = pre @ q # post)"
proof (intro exI conjI allI)
  show "xs = take k xs @ xs ! k # drop (Suc k) xs"
    using assms by (rule id_take_nth_drop)
  show "remove_nth k xs = take k xs @ drop (Suc k) xs"
    by (simp add: remove_nth_def)
  show "xs[k := q] = take k xs @ q # drop (Suc k) xs" for q
    using assms by (rule upd_conv_take_nth_drop)
qed

lemma run_append: "run (evs @ later) s = run later (run evs s)"
  by (induction evs arbitrary: s) simp_all

lemma pending_init: "goroutines_pending init_sys"
  by (simp add: goroutines_pending_def init_sys_def)

lemma pending_Upload:
  assumes "goroutines_pending s"
  shows "goroutines_pending (step (Upload now auth body) s)"
proof -
  from Upload_effect[of now auth body s] show ?thesis
  proof
    assume "step (Upload now auth body) s = s"
    with assms show ?thesis by simp
  next
    assume "\<exists>userID n. n \<notin> set (map Number (orders (ledger s))) \<and>
      step (Upload now auth body) s =
        s\<lparr>ledger := (ledger s)\<lparr>orders := orders (ledger s) @
              [\<lparr>Number = n, UserID = userID, Status = StatusNew, Accrual = 0,
                UploadedAt = now\<rparr>]\<rparr>,
          procs := procs s @ [SetProcessing n]\<rparr>"
    then obtain userID n where fresh: "n \<notin> set (map Number (orders (ledger s)))"
      and eq: "step (Upload now auth body) s =
        s\<lparr>ledger := (ledger s)\<lparr>orders := orders (ledger s) @
              [\<lparr>Number = n, UserID = userID, Status = StatusNew, Accrual = 0,
                UploadedAt = now\<rparr>]\<rparr>,
          procs := procs s @ [SetProcessing n]\<rparr>"
      by blast
    have d1: "distinct (map Number (orders (ledger s)))"
      and d2: "distinct (map proc_number (procs s))"
      and ex: "\<forall>p\<in>set (procs s). \<exists>ord\<in>set (orders (ledger s)).
                 Number ord = proc_number p \<and> \<not> terminal (Status ord)"
      using assms by (simp_all add: goroutines_pending_def)
    have nopr: "n \<notin> set (map proc_number (procs s))"
    proof
      assume "n \<in> set (map proc_number (procs s))"
      then obtain p where "p \<in> set (procs s)" "proc_number p = n" by auto
      with ex obtain ord where "ord \<in> set (orders (ledger s))" "Number ord = n" by blast
      with fresh show False by force
    qed
    show ?thesis
      unfolding eq goroutines_pending_def
      using d1 d2 ex fresh nopr by (auto simp: terminal_def StatusNew_def
          StatusProcessed_def StatusInvalid_def)
  qed
qed

lemma pending_ProcStep:
  assumes "goroutines_pending s"
  shows "goroutines_pending (step (ProcStep now k outcome) s)"
proof (cases "k < length (procs s)")
  case False
  with assms show ?thesis by simp
next
  case True
  obtain pre post where xs: "procs s = pre @ procs s ! k # post"
    and rm: "remove_nth k (procs s) = pre @ post"
    and up: "\<And>q. (procs s)[k := q] = pre @ q # post"
    using split_at[OF True] by blast
  have d1: "distinct (map Number (orders (ledger s)))"
    and d2: "distinct (map proc_number (procs s))"
    and ex: "\<forall>p\<in>set (procs s). \<exists>ord\<in>set (orders (ledger s)).
               Number ord = proc_number p \<and> \<not> terminal (Status ord)"
    using assms by (simp_all add: goroutines_pending_def)
  have d2': "distinct (map proc_number (pre @ procs s ! k # post))"
    using d2 xs by simp
  have others: "\<forall>p\<in>set (pre @ post). proc_number p \<noteq> proc_number (procs s ! k) \<and>
                  (\<exists>ord\<in>set (orders (ledger s)).
                      Number ord = proc_number p \<and> \<not> terminal (Status ord))"
  proof
    fix p assume p: "p \<in> set (pre @ post)"
    then have "p \<in> set (procs s)" using xs by (metis Un_iff set_append set_subset_Cons subsetD)
    with ex have e: "\<exists>ord\<in>set (orders (ledger s)).
                      Number ord = proc_number p \<and> \<not> terminal (Status ord)" by blast
    have "proc_number p \<noteq> proc_number (procs s ! k)"
      using d2' p by (auto simp: image_iff)
    with e show "proc_number p \<noteq> proc_number (procs s ! k) \<and>
                  (\<exists>ord\<in>set (orders (ledger s)).
                      Number ord = proc_number p \<and> \<not> terminal (Status ord))" by blast
  qed
  have mine: "\<exists>ord\<in>set (orders (ledger s)).
                Number ord = proc_number (procs s ! k) \<and> \<not> terminal (Status ord)"
    using ex True by (meson nth_mem)
  have dpp: "distinct (map proc_number (pre @ post))"
    using d2' by auto
  show ?thesis
  proof (cases "procs s ! k")
    case (SetProcessing m)
    have eq: "step (ProcStep now k outcome) s =
        s\<lparr>ledger := UpdateOrderStatus (ledger s) m StatusProcessing 0,
          procs := pre @ GetAccrual m # post, polls := polls s\<rparr>"
      using True SetProcessing up by simp
    have a: "distinct (map proc_number (pre @ GetAccrual m # post))"
      using d2' SetProcessing by simp
    have b: "\<forall>p\<in>set (pre @ GetAccrual m # post).
               \<exists>ord\<in>set (orders (UpdateOrderStatus (ledger s) m StatusProcessing 0)).
                 Number ord = proc_number p \<and> \<not> terminal (Status ord)"
    proof
      fix p assume "p \<in> set (pre @ GetAccrual m # post)"
      then consider "p = GetAccrual m" | "p \<in> set (pre @ post)" by auto
      then show "\<exists>ord\<in>set (orders (UpdateOrderStatus (ledger s) m StatusProcessing 0)).
                 Number ord = proc_number p \<and> \<not> terminal (Status ord)"
      proof cases
        case 1
        from mine SetProcessing obtain ord where "ord \<in> set (orders (ledger s))"
          "Number ord = m" by auto
        then have "ord\<lparr>Status := StatusProcessing, Accrual := 0\<rparr>
                     \<in> set (orders (UpdateOrderStatus (ledger s) m StatusProcessing 0))"
          by (rule same_order_updated)
        then show ?thesis using 1 \<open>Number ord = m\<close>
          by (intro bexI[of _ "ord\<lparr>Status := StatusProcessing, Accrual := 0\<rparr>"]) simp_all
      next
        case 2
        with others SetProcessing obtain ord where "ord \<in> set (orders (ledger s))"
          "Number ord = proc_number p" "\<not> terminal (Status ord)" "proc_number p \<noteq> m"
          by auto
        then show ?thesis using other_order_kept[of ord "ledger s" m] by auto
      qed
    qed
    show ?thesis
      unfolding eq goroutines_pending_def using d1 a b by simp
  next
    case (GetAccrual m)
    have led: "ledger (step (ProcStep now k outcome) s) = ledger s"
      using True GetAccrual
      by (simp add: Let_def split: sum.split option.split)
    have pr: "procs (step (ProcStep now k outcome) s) = pre @ post \<or>
              (\<exists>a. procs (step (ProcStep now k outcome) s) = pre @ WriteFinal m a # post)"
      using True GetAccrual up rm
      by (simp add: Let_def split: sum.split option.split)
    from pr show ?thesis
    proof
      assume p: "procs (step (ProcStep now k outcome) s) = pre @ post"
      show ?thesis
        unfolding goroutines_pending_def led p using d1 dpp others by blast
    next
      assume "\<exists>a. procs (step (ProcStep now k outcome) s) = pre @ WriteFinal m a # post"
      then obtain a where p: "procs (step (ProcStep now k outcome) s)
                                = pre @ WriteFinal m a # post" by blast
      have da: "distinct (map proc_number (pre @ WriteFinal m a # post))"
        using d2' GetAccrual by simp
      have "\<forall>q\<in>set (pre @ WriteFinal m a # post). \<exists>ord\<in>set (orders (ledger s)).
               Number ord = proc_number q \<and> \<not> terminal (Status ord)"
      proof
        fix q assume "q \<in> set (pre @ WriteFinal m a # post)"
        then consider "q = WriteFinal m a" | "q \<in> set (pre @ post)" by auto
        then show "\<exists>ord\<in>set (orders (ledger s)).
               Number ord = proc_number q \<and> \<not> terminal (Status ord)"
        proof cases
          case 1
          then show ?thesis using mine GetAccrual by simp
        next
          case 2
          then show ?thesis using others by blast
        qed
      qed
      then show ?thesis
        unfolding goroutines_pending_def led p using d1 da by blast
    qed
  next
    case (WriteFinal m a)
    have eq: "step (ProcStep now k outcome) s =
        s\<lparr>ledger := UpdateOrderStatus (ledger s) m (A_Status a) (A_Accrual a),
          procs := pre @ post, polls := polls s\<rparr>"
      using True WriteFinal rm by simp
    have b: "\<forall>p\<in>set (pre @ post).
               \<exists>ord\<in>set (orders (UpdateOrderStatus (ledger s) m (A_Status a) (A_Accrual a))).
                 Number ord = proc_number p \<and> \<not> terminal (Status ord)"
    proof
      fix p assume "p \<in> set (pre @ post)"
      with others WriteFinal obtain ord where "ord \<in> set (orders (ledger s))"
        "Number ord = proc_number p" "\<not> terminal (Status ord)" "proc_number p \<noteq> m"
        by auto
      then show "\<exists>ord\<in>set (orders (UpdateOrderStatus (ledger s) m (A_Status a) (A_Accrual a))).
                 Number ord = proc_number p \<and> \<not> terminal (Status ord)"
        using other_order_kept[of ord "ledger s" m] by auto
    qed
    show ?thesis
      unfolding eq goroutines_pending_def using d1 dpp b by simp
  qed
qed

lemma pending_ProcFail:
  assumes "goroutines_pending s"
  shows "goroutines_pending (step (ProcFail now k) s)"
proof (cases "k < length (procs s)")
  case False
  with assms show ?thesis by simp
next
  case True
  obtain pre post where xs: "procs s = pre @ procs s ! k # post"
    and rm: "remove_nth k (procs s) = pre @ post"
    using split_at[OF True] by blast
  have d2: "distinct (map proc_number (pre @ procs s ! k # post))"
    and ex: "\<forall>p\<in>set (pre @ procs s ! k # post). \<exists>ord\<in>set (orders (ledger s)).
               Number ord = proc_number p \<and> \<not> terminal (Status ord)"
    using assms xs by (simp_all add: goroutines_pending_def)
  have "distinct (map proc_number (pre @ post))" using d2 by auto
  moreover have "\<forall>p\<in>set (pre @ post). \<exists>ord\<in>set (orders (ledger s)).
               Number ord = proc_number p \<and> \<not> terminal (Status ord)"
    using ex by auto
  ultimately show ?thesis
    using assms True rm by (simp add: goroutines_pending_def)
qed

lemma pending_step:
  assumes "goroutines_pending s"
  shows "goroutines_pending (step e s)"
proof (cases e)
  case (Upload now auth body)
  then show ?thesis using pending_Upload[OF assms] by simp
next
  case (Withdraw now auth body sent)
  then show ?thesis
    using assms Withdraw_effect[of now auth body sent s]
    by (simp add: goroutines_pending_def)
next
  case (Tick now)
  then show ?thesis using assms by (simp add: processPendingOrders_def)
next
  case (ProcStep now k outcome)
  then show ?thesis using pending_ProcStep[OF assms] by simp
next
  case (ProcFail now k)
  then show ?thesis using pending_ProcFail[OF assms] by simp
qed

lemma pending_run: "goroutines_pending s \<Longrightarrow> goroutines_pending (run evs s)"
  by (induction evs arbitrary: s) (simp_all add: pending_step)

lemma find_first_kept:
  "find P xs = Some x \<Longrightarrow> find P (xs @ ys) = Some x"
  by (induction xs) (auto split: if_splits)

lemma terminal_kept_step:
  assumes inv: "goroutines_pending s"
    and row: "GetOrderByNumber (ledger s) n = Some ord"
    and fin: "terminal (Status ord)"
  shows "GetOrderByNumber (ledger (step e s)) n = Some ord"
proof (cases e)
  case (Upload now auth body)
  from Upload_effect[of now auth body s] show ?thesis
  proof
    assume "step (Upload now auth body) s = s"
    then show ?thesis using Upload row by simp
  next
    assume "\<exists>userID m. m \<notin> set (map Number (orders (ledger s))) \<and>
      step (Upload now auth body) s =
        s\<lparr>ledger := (ledger s)\<lparr>orders := orders (ledger s) @
              [\<lparr>Number = m, UserID = userID, Status = StatusNew, Accrual = 0,
                UploadedAt = now\<rparr>]\<rparr>,
          procs := procs s @ [SetProcessing m]\<rparr>"
    then obtain userID m where eq: "step (Upload now auth body) s =
        s\<lparr>ledger := (ledger s)\<lparr>orders := orders (ledger s) @
              [\<lparr>Number = m, UserID = userID, Status = StatusNew, Accrual = 0,
                UploadedAt = now\<rparr>]\<rparr>,
          procs := procs s @ [SetProcessing m]\<rparr>"
      by blast
    show ?thesis
      using row unfolding Upload eq
      by (simp add: GetOrderByNumber_def find_first_kept)
  qed
next
  case (Withdraw now auth body sent)
  then show ?thesis
    using row Withdraw_effect[of now auth body sent s] by (simp add: GetOrderByNumber_def)
next
  case (Tick now)
  then show ?thesis using row by (simp add: processPendingOrders_def)
next
  case (ProcStep now k outcome)
  show ?thesis
  proof (cases "k < length (procs s)")
    case False
    then show ?thesis using ProcStep row by simp
  next
    case True
    have "procs s ! k \<in> set (procs s)" using True by simp
    then obtain ord' where o': "ord' \<in> set (orders (ledger s))"
      "Number ord' = proc_number (procs s ! k)" "\<not> terminal (Status ord')"
      using inv unfolding goroutines_pending_def by blast
    have o: "ord \<in> set (orders (ledger s))" "Number ord = n"
      using GetOrderByNumber_Some[OF row] by simp_all
    have ne: "n \<noteq> proc_number (procs s ! k)"
    proof
      assume "n = proc_number (procs s ! k)"
      then have "Number ord = Number ord'" using o o' by simp
      moreover have "distinct (map Number (orders (ledger s)))"
        using inv by (simp add: goroutines_pending_def)
      ultimately have "ord = ord'" using o(1) o'(1) by (rule same_number_same_order[rotated 3])
      with fin o'(3) show False by simp
    qed
    show ?thesis
    proof (cases "procs s ! k")
      case (SetProcessing m)
      then show ?thesis
        using ProcStep True ne row by (simp add: find_other_order)
    next
      case (GetAccrual m)
      then have "ledger (step (ProcStep now k outcome) s) = ledger s"
        using True by (simp add: Let_def split: sum.split option.split)
      then show ?thesis using ProcStep row by simp
    next
      case (WriteFinal m a)
      then show ?thesis
        using ProcStep True ne row by (simp add: find_other_order)
    qed
  qed
next
  case (ProcFail now k)
  then show ?thesis using row by simp
qed

lemma terminal_kept_run:
  "goroutines_pending s \<Longrightarrow> GetOrderByNumber (ledger s) n = Some ord \<Longrightarrow>
   terminal (Status ord) \<Longrightarrow> GetOrderByNumber (ledger (run later s)) n = Some ord"
proof (induction later arbitrary: s)
  case Nil
  then show ?case by simp
next
  case (Cons e later)
  have "goroutines_pending (step e s)"
    using Cons.prems(1) by (rule pending_step)
  moreover have "GetOrderByNumber (ledger (step e s)) n = Some ord"
    using Cons.prems by (rule terminal_kept_step)
  ultimately show ?case using Cons.IH Cons.prems(3) by simp
qed

text \<open>
  Claim C4: once an order of the ledger has status PROCESSED or INVALID, no later
  operation of the system changes its row, and so neither its status nor its accrual:
  whatever requests to upload and to withdraw, ticks of the processor (the sweep) and
  calls or failures of the started goroutines follow, the order number still finds the
  same row; and \<^verbatim>\<open>OrderProcessor.processOrder\<close>, called on that order at any later
  time and with any answer of the accrual service, returns at once, leaving the ledger
  and the log of outbound calls as they were.
\<close>

theorem terminal_orders_never_change:
  assumes "GetOrderByNumber (ledger (run evs init_sys)) n = Some ord"
    and "Status ord = StatusProcessed \<or> Status ord = StatusInvalid"
  shows "GetOrderByNumber (ledger (run (evs @ later) init_sys)) n = Some ord \<and>
         OrderProcessor_processOrder now outcome ord
             (ledger (run (evs @ later) init_sys), polls (run (evs @ later) init_sys))
           = (ledger (run (evs @ later) init_sys), polls (run (evs @ later) init_sys))"
proof
  have inv: "goroutines_pending (run evs init_sys)"
    using pending_init by (rule pending_run)
  have fin: "terminal (Status ord)"
    using assms(2) by (simp add: terminal_def)
  have "GetOrderByNumber (ledger (run later (run evs init_sys))) n = Some ord"
    by (rule terminal_kept_run[OF inv assms(1) fin])
  then show "GetOrderByNumber (ledger (run (evs @ later) init_sys)) n = Some ord"
    by (simp add: run_append)
  show "OrderProcessor_processOrder now outcome ord
             (ledger (run (evs @ later) init_sys), polls (run (evs @ later) init_sys))
           = (ledger (run (evs @ later) init_sys), polls (run (evs @ later) init_sys))"
    using assms(2) by (simp add: OrderProcessor_processOrder_def)
qed

lemma scenario_continued:
  "orders (ledger (run (scenario @ later_events) init_sys)) =
     [\<lparr>Number = ''12345678903'', UserID = 1, Status = ''PROCESSED'',
        Accrual = 500, UploadedAt = 0\<rparr>,
      \<lparr>Number = ''79927398713'', UserID = 2, Status = ''PROCESSED'',
        Accrual = 500, UploadedAt = 27\<rparr>]"
  by (simp add: run_append scenario_run later_events_def processed_500_def
      handler_eval accrual_eval)

theorem terminal_orders_never_change_witness:
  "GetOrderByNumber (ledger (run scenario init_sys)) ''12345678903'' =
     Some \<lparr>Number = ''12345678903'', UserID = 1, Status = ''PROCESSED'',
            Accrual = 500, UploadedAt = 0\<rparr> \<and>
   Status \<lparr>Number = ''12345678903'', UserID = 1, Status = ''PROCESSED'',
            Accrual = 500, UploadedAt = 0\<rparr> = StatusProcessed \<and>
   GetOrderByNumber (ledger (run (scenario @ later_events) init_sys)) ''12345678903'' =
     Some \<lparr>Number = ''12345678903'', UserID = 1, Status = ''PROCESSED'',
            Accrual = 500, UploadedAt = 0\<rparr>"
proof -
  let ?ord = "\<lparr>Number = ''12345678903'', UserID = 1, Status = ''PROCESSED'',
            Accrual = 500, UploadedAt = 0\<rparr>"
  have a: "GetOrderByNumber (ledger (run scenario init_sys)) ''12345678903'' = Some ?ord"
    by (simp add: scenario_run GetOrderByNumber_def)
  have b: "Status ?ord = StatusProcessed \<or> Status ?ord = StatusInvalid"
    by (simp add: StatusProcessed_def)
  show ?thesis
    using a b terminal_orders_never_change [OF a b, of later_events 40 DoFailed]
    by (simp add: StatusProcessed_def)
qed

text \<open>
  The statement \<^verbatim>\<open>UPDATE orders ... WHERE number = $3\<close> itself carries no guard on the
  status: the property above rests on who sends it (one goroutine per created order, and
  \<^verbatim>\<open>OrderProcessor.processOrder\<close> after its status test).
\<close>

lemma UpdateOrderStatus_unguarded:
  "GetOrderByNumber
     (UpdateOrderStatus (ledger (run scenario init_sys)) ''12345678903'' StatusNew 0)
     ''12345678903'' =
   Some \<lparr>Number = ''12345678903'', UserID = 1, Status = ''NEW'', Accrual = 0,
          UploadedAt = 0\<rparr>"
  by (simp add: scenario_run GetOrderByNumber_def UpdateOrderStatus_def StatusNew_def)

end
